theory Spec2Isabelle
  imports Complex_Main "HOL-Library.Multiset"
begin

section \<open>Time\<close>

text \<open>
  A naive \<open>datetime\<close> is the number of microseconds since
  \<open>datetime.utcfromtimestamp(0)\<close>, a \<open>timedelta\<close> a number of microseconds;
  both have microsecond resolution in Python. A retry delay is given as the
  \<open>timedelta\<close> that \<open>timedelta(seconds=seconds)\<close> builds from it.
\<close>

type_synonym datetime = int
type_synonym timedelta = int

definition utcfromtimestamp0 :: datetime where
  "utcfromtimestamp0 = 0"

definition timedelta_seconds_attr :: "timedelta \<Rightarrow> int" where
  \<comment> \<open>the \<open>.seconds\<close> attribute of a non-negative \<open>timedelta\<close>: the seconds
      component, with the days and the microseconds left out\<close>
  "timedelta_seconds_attr td = (td div 1000000) mod 86400"

datatype error =
    UnknownPlatformException
  | AllClustersFailedException
  | OsbsException
  | ZeroDivisionError
  | TypeError
  | AttributeError
  | KeyError
  | OtherException string

section \<open>ClusterRetryContext\<close>

record ClusterRetryContext =
  fails :: int
  retry_at :: datetime
  max_cluster_fails :: int

definition ClusterRetryContext_init :: "int \<Rightarrow> ClusterRetryContext" where
  "ClusterRetryContext_init m =
     \<lparr>fails = 0, retry_at = utcfromtimestamp0, max_cluster_fails = m\<rparr>"

definition failed :: "ClusterRetryContext \<Rightarrow> bool" where
  "failed ctx = (fails ctx \<ge> max_cluster_fails ctx)"

definition in_retry_wait :: "datetime \<Rightarrow> ClusterRetryContext \<Rightarrow> bool" where
  \<comment> \<open>the first argument is the reading of \<open>datetime.now()\<close>\<close>
  "in_retry_wait now ctx = (now < retry_at ctx)"

definition try_again_later :: "datetime \<Rightarrow> timedelta \<Rightarrow> ClusterRetryContext \<Rightarrow> ClusterRetryContext" where
  "try_again_later now seconds ctx =
     (if \<not> failed ctx
      then ctx\<lparr>fails := fails ctx + 1, retry_at := now + seconds\<rparr>
      else ctx)"

section \<open>wait_for_any_cluster\<close>

text \<open>
  The dict of contexts is an association list from cluster name to context.
  The result is the error raised, or the number of seconds handed to
  \<open>time.sleep\<close>.
\<close>

type_synonym retry_contexts = "(string \<times> ClusterRetryContext) list"

definition wait_for_any_cluster :: "datetime \<Rightarrow> retry_contexts \<Rightarrow> error + int" where
  "wait_for_any_cluster now contexts =
     (let live = map retry_at (filter (\<lambda>ctx. \<not> failed ctx) (map snd contexts)) in
      if live = [] then Inl AllClustersFailedException
      else
        (let earliest_retry_at = Min (set live);
             time_until_next = earliest_retry_at - now
         in Inr (timedelta_seconds_attr (max 0 time_until_next))))"

text \<open>The sleep the specification describes, in microseconds.\<close>

definition spec_sleep_duration :: "datetime \<Rightarrow> retry_contexts \<Rightarrow> timedelta" where
  "spec_sleep_duration now contexts =
     max 0 (Min (set (map retry_at (filter (\<lambda>ctx. \<not> failed ctx) (map snd contexts)))) - now)"

section \<open>Python values\<close>

text \<open>
  The values that occur in \<open>container.yaml\<close>, in the platform set and in the
  keyword arguments of a worker build. A dict is an association list with
  distinct keys.
\<close>

datatype pyval =
    PyNone
  | PyBool bool
  | PyInt int
  | PyStr string
  | PyList "pyval list"
  | PyDict "(string \<times> pyval) list"

type_synonym kwargs = "string \<rightharpoonup> pyval"

fun hashable :: "pyval \<Rightarrow> bool" where
  "hashable (PyList _) = False"
| "hashable (PyDict _) = False"
| "hashable _ = True"

definition py_set :: "pyval list \<Rightarrow> error + pyval set" where
  \<comment> \<open>\<open>set(xs)\<close>: a list or a dict among the elements is unhashable\<close>
  "py_set xs = (if list_all hashable xs then Inr (set xs) else Inl TypeError)"

fun is_substring :: "string \<Rightarrow> string \<Rightarrow> bool" where
  "is_substring p [] = (p = [])"
| "is_substring p (c # cs) = (take (length p) (c # cs) = p \<or> is_substring p cs)"

fun py_contains :: "pyval \<Rightarrow> string \<Rightarrow> error + bool" where
  \<comment> \<open>\<open>k in data\<close>\<close>
  "py_contains (PyDict kvs) k = Inr (k \<in> fst ` set kvs)"
| "py_contains (PyList xs) k = Inr (PyStr k \<in> set xs)"
| "py_contains (PyStr s) k = Inr (is_substring k s)"
| "py_contains _ k = Inl TypeError"

fun py_getitem :: "pyval \<Rightarrow> string \<Rightarrow> error + pyval" where
  \<comment> \<open>\<open>data[k]\<close> with a string key\<close>
  "py_getitem (PyDict kvs) k = (case map_of kvs k of None \<Rightarrow> Inl KeyError | Some v \<Rightarrow> Inr v)"
| "py_getitem _ k = Inl TypeError"

fun py_get :: "pyval \<Rightarrow> string \<Rightarrow> pyval \<Rightarrow> error + pyval" where
  \<comment> \<open>\<open>data.get(k, default)\<close>: only a dict has the method\<close>
  "py_get (PyDict kvs) k d = (case map_of kvs k of None \<Rightarrow> Inr d | Some v \<Rightarrow> Inr v)"
| "py_get _ k d = Inl AttributeError"

section \<open>Clusters, builds and the orchestrator's state\<close>

record Cluster =
  name :: string
  priority :: int
  max_concurrent_builds :: int

text \<open>
  A \<open>ClusterInfo\<close> as \<open>get_cluster_info\<close> builds it; the client \<open>osbs\<close> is
  identified by the \<open>conf_section\<close> it was configured with. The load is the
  exact quotient; Python rounds it to a float, which keeps the order.
\<close>

record ClusterInfo =
  cluster :: Cluster
  platform :: pyval
  osbs :: string
  load :: rat

record Build =
  build_name :: string
  is_finished :: bool

record WorkerBuildInfo =
  build :: "Build option"
  wb_cluster :: "Cluster option"
  wb_osbs :: "string option"
  wb_platform :: pyval
  monitor_exception :: "error option"

definition WorkerBuildInfo_init :: "Build option \<Rightarrow> ClusterInfo \<Rightarrow> WorkerBuildInfo" where
  "WorkerBuildInfo_init b cluster_info =
     \<lparr>build = b, wb_cluster = Some (cluster cluster_info), wb_osbs = Some (osbs cluster_info),
      wb_platform = platform cluster_info, monitor_exception = None\<rparr>"

text \<open>
  The plugin object. \<open>workflow_override_kwargs\<close> is the \<open>override_kwargs\<close> slot
  of the plugin's workspace in the workflow, \<open>workflow_is_rebuild\<close> what
  \<open>is_rebuild(self.workflow)\<close> returns.
\<close>

record OrchestrateBuildPlugin =
  platforms :: "pyval set"
  build_kwargs :: kwargs
  find_cluster_retry_delay :: timedelta
  failure_retry_delay :: timedelta
  self_max_cluster_fails :: int
  koji_upload_dir :: string
  fs_task_id :: "int option"
  release :: "string option"
  worker_builds :: "WorkerBuildInfo list"
  workflow_override_kwargs :: kwargs
  workflow_is_rebuild :: bool

section \<open>The world outside\<close>

text \<open>
  The program's steps are numbered by \<open>tick\<close>. The environment says what the
  clock reads and what each remote call answers at a given step. The world
  also keeps what the program did to it: the seconds slept and, for each
  \<open>create_worker_build\<close> call, the client, the keyword arguments and the
  outcome.
\<close>

record env =
  now_at :: "nat \<Rightarrow> datetime"
  get_current_builds_at :: "nat \<Rightarrow> Cluster \<Rightarrow> error + int"
  create_worker_build_at :: "nat \<Rightarrow> string \<Rightarrow> kwargs \<Rightarrow> error + Build"
  watch_logs_at :: "nat \<Rightarrow> string \<Rightarrow> error option"
  wait_for_build_to_finish_at :: "nat \<Rightarrow> string \<Rightarrow> error + Build"
  cancel_build_at :: "nat \<Rightarrow> string \<Rightarrow> error option"

record world =
  tick :: nat
  sleeps :: "int list"
  create_calls :: "(string \<times> kwargs \<times> (error + Build)) list"

definition step :: "world \<Rightarrow> world" where
  "step w = w\<lparr>tick := Suc (tick w)\<rparr>"

section \<open>get_platforms\<close>

definition make_list :: "pyval \<Rightarrow> pyval list" where
  "make_list v = (case v of PyList xs \<Rightarrow> xs | _ \<Rightarrow> [v])"

text \<open>
  The second argument is \<open>None\<close> when \<open>container.yaml\<close> does not exist and
  otherwise what \<open>yaml.load\<close> returned. The result is the new value of
  \<open>self.platforms\<close> and the set returned.
\<close>

definition get_platforms :: "pyval set \<Rightarrow> pyval option \<Rightarrow> error + pyval set \<times> pyval set" where
  "get_platforms self_platforms container =
     (case container of
        None \<Rightarrow> Inr (self_platforms, self_platforms - {})
      | Some data \<Rightarrow>
          (if data = PyNone then Inr (self_platforms, self_platforms)
           else
             (case py_contains data ''platforms'' of
                Inl ex \<Rightarrow> Inl ex
              | Inr False \<Rightarrow> Inr (self_platforms, self_platforms)
              | Inr True \<Rightarrow>
                  (case py_getitem data ''platforms'' of
                     Inl ex \<Rightarrow> Inl ex
                   | Inr p \<Rightarrow>
                       (if p = PyNone then Inr (self_platforms, self_platforms)
                        else
                          (case py_get p ''not'' (PyList []) of
                             Inl ex \<Rightarrow> Inl ex
                           | Inr not_value \<Rightarrow>
                               (case py_set (make_list not_value) of
                                  Inl ex \<Rightarrow> Inl ex
                                | Inr excluded_platforms \<Rightarrow>
                                    (case py_get p ''only'' (PyList []) of
                                       Inl ex \<Rightarrow> Inl ex
                                     | Inr only_value \<Rightarrow>
                                         (case py_set (make_list only_value) of
                                            Inl ex \<Rightarrow> Inl ex
                                          | Inr only_platforms \<Rightarrow>
                                              (let self_platforms' =
                                                     (if only_platforms \<noteq> {}
                                                      then self_platforms \<inter> only_platforms
                                                      else self_platforms)
                                               in Inr (self_platforms',
                                                       self_platforms' - excluded_platforms)))))))))))"

section \<open>get_koji_upload_dir\<close>

definition ascii_letters :: string where
  "ascii_letters = ''abcdefghijklmnopqrstuvwxyzABCDEFGHIJKLMNOPQRSTUVWXYZ''"

definition random_choice :: "string \<Rightarrow> nat \<Rightarrow> char" where
  \<comment> \<open>\<open>random.choice(seq)\<close> on a non-empty sequence, the second argument being
      the random source's draw\<close>
  "random_choice seq r = seq ! (r mod length seq)"

definition os_path_join :: "string \<Rightarrow> string \<Rightarrow> string" where
  \<comment> \<open>\<open>posixpath.join\<close> of two components\<close>
  "os_path_join a b =
     (if take 1 b = ''/'' then b
      else if a = [] \<or> last a = CHR ''/'' then a @ b
      else a @ ''/'' @ b)"

text \<open>
  \<open>time.time()\<close> returns a float, and \<open>%r\<close> prints its \<open>repr\<close>. A float is
  modelled by the decimal that \<open>repr\<close> prints for it, the shortest one that
  reads back as the same float: an integer \<open>m\<close> and an exponent \<open>e\<close>, the value
  being \<open>m * 10 ^ e\<close>. \<open>repr\<close> works as CPython's \<open>format_float_short\<close> does for
  the format code \<open>r\<close>: from the digits of \<open>m\<close> without trailing zeros and the
  position of the decimal point, in scientific notation when the point lies
  more than sixteen digits to the right or more than three zeros to the left of
  the first digit, and with \<open>.0\<close> added to a whole number.
\<close>

datatype pyfloat = PyFloat int int

definition float_value :: "pyfloat \<Rightarrow> real" where
  "float_value x = (case x of PyFloat m e \<Rightarrow> real_of_int m * 10 powi e)"

definition digit_char :: "nat \<Rightarrow> char" where
  "digit_char d = ''0123456789'' ! d"

function digits_of :: "int \<Rightarrow> string" where
  "digits_of n = (if n < 10 then [digit_char (nat n)]
                  else digits_of (n div 10) @ [digit_char (nat (n mod 10))])"
  by pat_completeness auto
termination by (relation "measure nat") auto

declare digits_of.simps [simp del]

definition exponent_digits :: "int \<Rightarrow> string" where
  \<comment> \<open>the sign and at least two digits\<close>
  "exponent_digits x =
     (if x < 0 then ''-'' else ''+'')
     @ (if \<bar>x\<bar> < 10 then ''0'' else []) @ digits_of \<bar>x\<bar>"

definition shortest_digits :: "int \<Rightarrow> string" where
  "shortest_digits m =
     (if m = 0 then ''0'' else rev (dropWhile (\<lambda>c. c = CHR ''0'') (rev (digits_of m))))"

definition decimal_point :: "int \<Rightarrow> int \<Rightarrow> int" where
  \<comment> \<open>how many of the digits stand before the decimal point\<close>
  "decimal_point m e = (if m = 0 then 1 else int (length (digits_of m)) + e)"

definition format_float_short :: "string \<Rightarrow> int \<Rightarrow> string" where
  "format_float_short digits decpt =
     (if decpt \<le> - 4 \<or> 16 < decpt
      then take 1 digits @ (if 1 < length digits then ''.'' @ drop 1 digits else [])
           @ ''e'' @ exponent_digits (decpt - 1)
      else if decpt \<le> 0 then ''0.'' @ replicate (nat (- decpt)) CHR ''0'' @ digits
      else if nat decpt < length digits
      then take (nat decpt) digits @ ''.'' @ drop (nat decpt) digits
      else digits @ replicate (nat decpt - length digits) CHR ''0'' @ ''.0'')"

definition float_repr :: "pyfloat \<Rightarrow> string" where
  "float_repr x =
     (case x of PyFloat m e \<Rightarrow>
        (if m < 0 then ''-'' else [])
        @ format_float_short (shortest_digits \<bar>m\<bar>) (decimal_point \<bar>m\<bar> e))"

text \<open>
  The first argument is what \<open>time.time()\<close> returns, the second the draws of the
  eight \<open>random.choice\<close> calls.
\<close>

definition get_koji_upload_dir :: "pyfloat \<Rightarrow> (nat \<Rightarrow> nat) \<Rightarrow> string" where
  "get_koji_upload_dir time_time draws =
     (let dir_prefix = ''koji-upload'';
          random_chars = map (\<lambda>i. random_choice ascii_letters (draws i)) [0..<8];
          unique_fragment = float_repr time_time @ ''.'' @ random_chars
      in os_path_join dir_prefix unique_fragment)"

definition OrchestrateBuildPlugin_init ::
  "pyval list \<Rightarrow> kwargs \<Rightarrow> timedelta \<Rightarrow> timedelta \<Rightarrow> int \<Rightarrow> pyfloat \<Rightarrow> (nat \<Rightarrow> nat)
     \<Rightarrow> int option \<Rightarrow> string option \<Rightarrow> kwargs \<Rightarrow> bool \<Rightarrow> OrchestrateBuildPlugin" where
  \<comment> \<open>the last four arguments: what \<open>get_fs_task_id\<close> and \<open>get_release\<close> return
      and the two parts of the workflow read later\<close>
  "OrchestrateBuildPlugin_init platforms_arg build_kwargs_arg find_delay failure_delay max_fails
       time_time draws task_id release_label overrides rebuild =
     \<lparr>platforms = set platforms_arg,
      build_kwargs = build_kwargs_arg,
      find_cluster_retry_delay = find_delay,
      failure_retry_delay = failure_delay,
      self_max_cluster_fails = max_fails,
      koji_upload_dir = get_koji_upload_dir time_time draws,
      fs_task_id = task_id,
      release = release_label,
      worker_builds = [],
      workflow_override_kwargs = overrides,
      workflow_is_rebuild = rebuild\<rparr>"

text \<open>
  The pattern \<open>^koji-upload/\d+(\.\d+)?\.[A-Za-z]{8}$\<close> of the specification, as
  a recogniser: the prefix, a run of digits, then either a dot, a run of digits,
  a dot and eight letters, or a dot and eight letters.
\<close>

definition is_digit :: "char \<Rightarrow> bool" where
  "is_digit c = (c \<in> set ''0123456789'')"

definition is_letter :: "char \<Rightarrow> bool" where
  "is_letter c = (c \<in> set ''abcdefghijklmnopqrstuvwxyzABCDEFGHIJKLMNOPQRSTUVWXYZ'')"

definition dot_letters8 :: "string \<Rightarrow> bool" where
  "dot_letters8 s = (take 1 s = ''.'' \<and> length (drop 1 s) = 8 \<and> list_all is_letter (drop 1 s))"

definition matches_upload_dir_pattern :: "string \<Rightarrow> bool" where
  "matches_upload_dir_pattern s =
     (take 12 s = ''koji-upload/'' \<and>
      (let r = drop 12 s; ds = takeWhile is_digit r; r1 = dropWhile is_digit r in
       ds \<noteq> [] \<and>
       (dot_letters8 r1 \<or>
        (take 1 r1 = ''.'' \<and>
         (let fs = takeWhile is_digit (drop 1 r1); r2 = dropWhile is_digit (drop 1 r1) in
          fs \<noteq> [] \<and> dot_letters8 r2)))))"

section \<open>get_worker_build_kwargs and do_worker_build\<close>

definition get_worker_build_kwargs ::
  "OrchestrateBuildPlugin \<Rightarrow> string option \<Rightarrow> pyval \<Rightarrow> string \<Rightarrow> int option \<Rightarrow> kwargs" where
  "get_worker_build_kwargs self release_arg platform_arg koji_upload_dir_arg task_id =
     (let kw0 = build_kwargs self;
          kw1 = kw0(''architecture'' := None);
          kw2 = kw1(''release'' \<mapsto> (case release_arg of None \<Rightarrow> PyNone | Some r \<Rightarrow> PyStr r));
          kw3 = kw2(''platform'' \<mapsto> platform_arg);
          kw4 = kw3(''koji_upload_dir'' \<mapsto> PyStr koji_upload_dir_arg);
          kw5 = kw4(''is_auto'' \<mapsto> PyBool (workflow_is_rebuild self))
      in (case task_id of
            None \<Rightarrow> kw5
          | Some t \<Rightarrow> (if t \<noteq> 0 then kw5(''filesystem_koji_task_id'' \<mapsto> PyInt t) else kw5)))"

definition wb_name :: "WorkerBuildInfo \<Rightarrow> string" where
  "wb_name build_info = (case build build_info of Some b \<Rightarrow> build_name b | None \<Rightarrow> ''N/A'')"

definition set_last :: "('a \<Rightarrow> 'a) \<Rightarrow> 'a list \<Rightarrow> 'a list" where
  \<comment> \<open>a change to the object appended last to the list\<close>
  "set_last f xs = (if xs = [] then [] else butlast xs @ [f (last xs)])"

definition cancel_build :: "env \<Rightarrow> WorkerBuildInfo \<Rightarrow> world \<Rightarrow> error option \<times> world" where
  "cancel_build e build_info w =
     (case build build_info of
        None \<Rightarrow> (None, w)
      | Some b \<Rightarrow>
          if \<not> is_finished b then (cancel_build_at e (tick w) (wb_name build_info), step w)
          else (None, w))"

definition monitor_failed ::
  "env \<Rightarrow> error \<Rightarrow> WorkerBuildInfo \<Rightarrow> OrchestrateBuildPlugin \<times> world
     \<Rightarrow> (error + unit) \<times> OrchestrateBuildPlugin \<times> world" where
  \<comment> \<open>the handler of an exception of \<open>watch_logs\<close> or \<open>wait_to_finish\<close>\<close>
  "monitor_failed e ex build_info st =
     (case st of (self, w) \<Rightarrow>
        let self' = self\<lparr>worker_builds :=
                      set_last (\<lambda>bi. bi\<lparr>monitor_exception := Some ex\<rparr>) (worker_builds self)\<rparr>
        in (case cancel_build e build_info w of
              (None, w') \<Rightarrow> (Inr (), self', w')
            | (Some cex, w') \<Rightarrow>
                (if cex = OsbsException then (Inr (), self', w') else (Inl cex, self', w'))))"

definition do_worker_build ::
  "env \<Rightarrow> ClusterInfo \<Rightarrow> OrchestrateBuildPlugin \<times> world
     \<Rightarrow> (error + unit) \<times> OrchestrateBuildPlugin \<times> world" where
  "do_worker_build e cluster_info st =
     (case st of (self, w) \<Rightarrow>
        let override_kwargs = workflow_override_kwargs self;
            kwargs = get_worker_build_kwargs self (release self) (platform cluster_info)
                       (koji_upload_dir self) (fs_task_id self) ++ override_kwargs;
            created = create_worker_build_at e (tick w) (osbs cluster_info) kwargs;
            w1 = (step w)\<lparr>create_calls := create_calls w
                                   @ [(osbs cluster_info, kwargs, created)]\<rparr>
        in (case created of
              Inl ex \<Rightarrow>
                (if ex = OsbsException then (Inl OsbsException, self, w1)
                 else (Inr (), self\<lparr>worker_builds := worker_builds self
                                       @ [WorkerBuildInfo_init None cluster_info]\<rparr>, w1))
            | Inr b \<Rightarrow>
                (let build_info = WorkerBuildInfo_init (Some b) cluster_info;
                     self1 = self\<lparr>worker_builds := worker_builds self @ [build_info]\<rparr>
                 in (case watch_logs_at e (tick w1) (wb_name build_info) of
                       Some ex \<Rightarrow> monitor_failed e ex build_info (self1, step w1)
                     | None \<Rightarrow>
                         (case wait_for_build_to_finish_at e (tick (step w1)) (wb_name build_info) of
                            Inl ex \<Rightarrow> monitor_failed e ex build_info (self1, step (step w1))
                          | Inr b' \<Rightarrow>
                              (Inr (),
                               self1\<lparr>worker_builds :=
                                       set_last (\<lambda>bi. bi\<lparr>build := Some b'\<rparr>) (worker_builds self1)\<rparr>,
                               step (step w1)))))))"

section \<open>get_clusters\<close>

definition get_cluster_info :: "env \<Rightarrow> nat \<Rightarrow> Cluster \<Rightarrow> pyval \<Rightarrow> error + ClusterInfo" where
  \<comment> \<open>building the client and listing its builds is one remote step\<close>
  "get_cluster_info e t c platform_arg =
     (case get_current_builds_at e t c of
        Inl ex \<Rightarrow> Inl ex
      | Inr current_builds \<Rightarrow>
          if max_concurrent_builds c = 0 then Inl ZeroDivisionError
          else Inr \<lparr>cluster = c, platform = platform_arg, osbs = name c,
                    load = of_int current_builds / of_int (max_concurrent_builds c)\<rparr>)"

definition update_ctx ::
  "string \<Rightarrow> (ClusterRetryContext \<Rightarrow> ClusterRetryContext) \<Rightarrow> retry_contexts \<Rightarrow> retry_contexts" where
  \<comment> \<open>a change to the context object stored under a name\<close>
  "update_ctx n f contexts = map (\<lambda>(k, ctx). if k = n then (k, f ctx) else (k, ctx)) contexts"

definition ctx_failed :: "retry_contexts \<Rightarrow> Cluster \<Rightarrow> bool" where
  \<comment> \<open>\<open>retry_contexts[c.name].failed\<close>, read where the name is known to be a key\<close>
  "ctx_failed contexts c = (case map_of contexts (name c) of Some ctx \<Rightarrow> failed ctx | None \<Rightarrow> False)"

text \<open>The \<open>for\<close> loop of \<open>get_clusters\<close> over the candidates in priority order.\<close>

fun probe_candidates ::
  "env \<Rightarrow> OrchestrateBuildPlugin \<Rightarrow> pyval \<Rightarrow> Cluster list
     \<Rightarrow> retry_contexts \<times> world \<times> ClusterInfo list
     \<Rightarrow> (error + ClusterInfo list) \<times> retry_contexts \<times> world" where
  "probe_candidates e self pf [] (contexts, w, possible) = (Inr possible, contexts, w)"
| "probe_candidates e self pf (c # cs) (contexts, w, possible) =
     (case map_of contexts (name c) of
        None \<Rightarrow> (Inl KeyError, contexts, w)
      | Some ctx \<Rightarrow>
          (if in_retry_wait (now_at e (tick w)) ctx
           then probe_candidates e self pf cs (contexts, step w, possible)
           else if failed ctx
           then probe_candidates e self pf cs (contexts, step w, possible)
           else
             (case get_cluster_info e (tick (step w)) c pf of
                Inr cluster_info \<Rightarrow>
                  probe_candidates e self pf cs (contexts, step (step w), possible @ [cluster_info])
              | Inl ex \<Rightarrow>
                  (if ex = OsbsException
                   then probe_candidates e self pf cs
                          (update_ctx (name c)
                             (try_again_later (now_at e (tick (step (step w))))
                                (find_cluster_retry_delay self)) contexts,
                           step (step (step w)), possible)
                   else (Inl ex, contexts, step (step w))))))"

text \<open>
  The \<open>while\<close> loop of \<open>get_clusters\<close>; it ends with the probed infos in the
  order they were stored. The candidates are distinct objects, so the set of
  them is their list.
\<close>

fun get_clusters_loop ::
  "nat \<Rightarrow> env \<Rightarrow> OrchestrateBuildPlugin \<Rightarrow> pyval \<Rightarrow> Cluster list \<Rightarrow> retry_contexts \<times> world
     \<Rightarrow> ((error + ClusterInfo list) \<times> retry_contexts \<times> world) option" where
  "get_clusters_loop 0 e self pf candidates st = None"
| "get_clusters_loop (Suc fuel) e self pf candidates (contexts, w) =
     (if candidates = [] then Some (Inr [], contexts, w)
      else
        (case wait_for_any_cluster (now_at e (tick w)) contexts of
           Inl ex \<Rightarrow> Some (Inl ex, contexts, w)
         | Inr secs \<Rightarrow>
             (case probe_candidates e self pf (sort_key priority candidates)
                     (contexts, (step w)\<lparr>sleeps := sleeps w @ [secs]\<rparr>, []) of
                (Inl ex, contexts', w') \<Rightarrow> Some (Inl ex, contexts', w')
              | (Inr possible, contexts', w') \<Rightarrow>
                  (let candidates' = filter (\<lambda>c. \<not> ctx_failed contexts' c) candidates in
                   if candidates' \<noteq> [] \<and> possible = []
                   then get_clusters_loop fuel e self pf candidates' (contexts', w')
                   else Some (Inr possible, contexts', w')))))"

definition get_clusters_ret :: "ClusterInfo list \<Rightarrow> ClusterInfo list" where
  \<comment> \<open>the two \<open>sorted\<close> calls that end \<open>get_clusters\<close>\<close>
  "get_clusters_ret possible_cluster_info =
     (let ret = sort_key (\<lambda>c. priority (cluster c)) possible_cluster_info;
          ret = sort_key (\<lambda>c. load c) ret
      in ret)"

definition get_clusters ::
  "nat \<Rightarrow> env \<Rightarrow> OrchestrateBuildPlugin \<Rightarrow> pyval \<Rightarrow> retry_contexts \<Rightarrow> Cluster list \<Rightarrow> world
     \<Rightarrow> ((error + ClusterInfo list) \<times> retry_contexts \<times> world) option" where
  "get_clusters fuel e self pf contexts all_clusters w =
     (case get_clusters_loop fuel e self pf all_clusters (contexts, w) of
        None \<Rightarrow> None
      | Some (Inl ex, st) \<Rightarrow> Some (Inl ex, st)
      | Some (Inr possible, st) \<Rightarrow> Some (Inr (get_clusters_ret possible), st))"

text \<open>The two orders on cluster infos: the one the specification names, and the other.\<close>

definition priority_then_load :: "ClusterInfo \<Rightarrow> ClusterInfo \<Rightarrow> bool" where
  "priority_then_load a b =
     (priority (cluster a) < priority (cluster b)
      \<or> (priority (cluster a) = priority (cluster b) \<and> load a \<le> load b))"

definition load_then_priority :: "ClusterInfo \<Rightarrow> ClusterInfo \<Rightarrow> bool" where
  "load_then_priority a b =
     (load a < load b
      \<or> (load a = load b \<and> priority (cluster a) \<le> priority (cluster b)))"

section \<open>select_and_start_cluster\<close>

text \<open>
  The \<open>for\<close> loop over the infos \<open>get_clusters\<close> returned: \<open>Inr True\<close> when the
  function returned from inside the loop, \<open>Inr False\<close> when the loop ran out.
\<close>

fun start_on_clusters ::
  "env \<Rightarrow> ClusterInfo list \<Rightarrow> OrchestrateBuildPlugin \<times> retry_contexts \<times> world
     \<Rightarrow> (error + bool) \<times> OrchestrateBuildPlugin \<times> retry_contexts \<times> world" where
  "start_on_clusters e [] st = (Inr False, st)"
| "start_on_clusters e (cluster_info # rest) (self, contexts, w) =
     (case map_of contexts (name (cluster cluster_info)) of
        None \<Rightarrow> (Inl KeyError, self, contexts, w)
      | Some ctx \<Rightarrow>
          (case do_worker_build e cluster_info (self, w) of
             (Inr u, self', w') \<Rightarrow> (Inr True, self', contexts, w')
           | (Inl ex, self', w') \<Rightarrow>
               (if ex = OsbsException
                then start_on_clusters e rest
                       (self',
                        update_ctx (name (cluster cluster_info))
                          (try_again_later (now_at e (tick w')) (failure_retry_delay self)) contexts,
                        step w')
                else (Inl ex, self', contexts, w'))))"

definition sentinel_build_info :: "pyval \<Rightarrow> error \<Rightarrow> WorkerBuildInfo" where
  \<comment> \<open>\<open>WorkerBuildInfo(build=None, cluster_info=ClusterInfo(None, platform, None, None))\<close>
      with \<open>monitor_exception\<close> set from the exception\<close>
  "sentinel_build_info pf ex =
     \<lparr>build = None, wb_cluster = None, wb_osbs = None, wb_platform = pf,
      monitor_exception = Some ex\<rparr>"

fun select_loop ::
  "nat \<Rightarrow> env \<Rightarrow> pyval \<Rightarrow> Cluster list \<Rightarrow> OrchestrateBuildPlugin \<times> retry_contexts \<times> world
     \<Rightarrow> ((error + unit) \<times> OrchestrateBuildPlugin \<times> world) option" where
  "select_loop 0 e pf clusters st = None"
| "select_loop (Suc fuel) e pf clusters (self, contexts, w) =
     (case get_clusters fuel e self pf contexts clusters w of
        None \<Rightarrow> None
      | Some (Inl ex, contexts', w') \<Rightarrow>
          (if ex = AllClustersFailedException
           then Some (Inr (),
                      self\<lparr>worker_builds := worker_builds self @ [sentinel_build_info pf ex]\<rparr>, w')
           else Some (Inl ex, self, w'))
      | Some (Inr possible_cluster_info, contexts', w') \<Rightarrow>
          (case start_on_clusters e possible_cluster_info (self, contexts', w') of
             (Inl ex, self', contexts'', w'') \<Rightarrow> Some (Inl ex, self', w'')
           | (Inr True, self', contexts'', w'') \<Rightarrow> Some (Inr (), self', w'')
           | (Inr False, self', contexts'', w'') \<Rightarrow>
               select_loop fuel e pf clusters (self', contexts'', w'')))"

definition fresh_retry_contexts :: "int \<Rightarrow> Cluster list \<Rightarrow> retry_contexts" where
  \<comment> \<open>the dict comprehension: one fresh context under each cluster name\<close>
  "fresh_retry_contexts m clusters =
     map (\<lambda>n. (n, ClusterRetryContext_init m)) (remdups (map name clusters))"

text \<open>
  The third argument is the reactor configuration's
  \<open>get_enabled_clusters_for_platform\<close>. \<open>None\<close> is a run that has not ended
  within the fuel.
\<close>

definition select_and_start_cluster ::
  "nat \<Rightarrow> env \<Rightarrow> (pyval \<Rightarrow> Cluster list) \<Rightarrow> pyval \<Rightarrow> OrchestrateBuildPlugin \<times> world
     \<Rightarrow> ((error + unit) \<times> OrchestrateBuildPlugin \<times> world) option" where
  "select_and_start_cluster fuel e get_enabled_clusters_for_platform pf st =
     (case st of (self, w) \<Rightarrow>
        let clusters = get_enabled_clusters_for_platform pf in
        if clusters = [] then Some (Inl UnknownPlatformException, self, w)
        else select_loop fuel e pf clusters
               (self, fresh_retry_contexts (self_max_cluster_fails self) clusters, w))"

text \<open>
  The readings of a clock that counts the seconds since the epoch and has not
  been set before it: zero, or a value from \<open>0.0001\<close> up to, but not including,
  \<open>1e16\<close>.
\<close>

definition clock_in_range :: "pyfloat \<Rightarrow> bool" where
  "clock_in_range x =
     (float_value x = 0 \<or> (1 / 10 ^ 4 \<le> float_value x \<and> float_value x < 10 ^ 16))"

section \<open>A small configuration to run the model on\<close>

text \<open>
  Two clusters for one platform: \<open>a\<close> is preferred (priority 1) and half
  loaded, \<open>b\<close> has priority 2 and a tenth of its capacity in use. The clock
  moves twenty seconds with each step.
\<close>

definition cluster_a :: Cluster where
  "cluster_a = \<lparr>name = ''a'', priority = 1, max_concurrent_builds = 10\<rparr>"

definition cluster_b :: Cluster where
  "cluster_b = \<lparr>name = ''b'', priority = 2, max_concurrent_builds = 10\<rparr>"

definition info_a :: ClusterInfo where
  "info_a = \<lparr>cluster = cluster_a, platform = PyStr ''x86_64'', osbs = ''a'', load = 1 / 2\<rparr>"

definition info_b :: ClusterInfo where
  "info_b = \<lparr>cluster = cluster_b, platform = PyStr ''x86_64'', osbs = ''b'', load = 1 / 10\<rparr>"

definition example_env :: env where
  "example_env =
     \<lparr>now_at = (\<lambda>k. 1500000000000000 + 20000000 * int k),
      get_current_builds_at = (\<lambda>t c. if name c = ''a'' then Inr 5 else Inr 1),
      create_worker_build_at =
        (\<lambda>t c kw. if c = ''a'' then Inl (OtherException ''boom'') else Inl OsbsException),
      watch_logs_at = (\<lambda>t n. None),
      wait_for_build_to_finish_at = (\<lambda>t n. Inl OsbsException),
      cancel_build_at = (\<lambda>t n. None)\<rparr>"

definition example_env_ok :: env where
  \<comment> \<open>as \<open>example_env\<close>, but cluster \<open>a\<close> creates the build and it finishes\<close>
  "example_env_ok =
     example_env
       \<lparr>create_worker_build_at :=
          (\<lambda>t c kw. if c = ''a'' then Inr \<lparr>build_name = ''build-1'', is_finished = False\<rparr>
                     else Inl OsbsException),
        wait_for_build_to_finish_at := (\<lambda>t n. Inr \<lparr>build_name = n, is_finished = True\<rparr>)\<rparr>"

definition example_env_logs_fail :: env where
  \<comment> \<open>as \<open>example_env_ok\<close>, but following the logs fails; \<open>cancel_build\<close> then
      raises \<open>OsbsException\<close> on \<open>build-1\<close>\<close>
  "example_env_logs_fail =
     example_env_ok
       \<lparr>watch_logs_at := (\<lambda>t n. Some (OtherException ''logs'')),
        cancel_build_at := (\<lambda>t n. Some OsbsException)\<rparr>"

definition example_env_cancel_fails :: env where
  \<comment> \<open>as \<open>example_env_logs_fail\<close>, but \<open>cancel_build\<close> raises something else\<close>
  "example_env_cancel_fails =
     example_env_logs_fail\<lparr>cancel_build_at := (\<lambda>t n. Some (OtherException ''cancel''))\<rparr>"

definition example_self :: OrchestrateBuildPlugin where
  "example_self =
     OrchestrateBuildPlugin_init [PyStr ''x86_64''] [''architecture'' \<mapsto> PyStr ''x86_64'']
       15000000 10000000 2 (PyFloat 151000000025 (- 2)) (\<lambda>i. 7 * i + 30) (Some 0) (Some ''1'')
       [''release'' \<mapsto> PyStr ''2.0''] False"

definition example_self_override :: OrchestrateBuildPlugin where
  \<comment> \<open>as \<open>example_self\<close>, but the workspace overrides \<open>koji_upload_dir\<close>\<close>
  "example_self_override =
     OrchestrateBuildPlugin_init [PyStr ''x86_64''] [''architecture'' \<mapsto> PyStr ''x86_64'']
       15000000 10000000 2 (PyFloat 151000000025 (- 2)) (\<lambda>i. 7 * i + 30) (Some 0) (Some ''1'')
       [''koji_upload_dir'' \<mapsto> PyStr ''elsewhere''] False"

definition no_clusters :: "pyval \<Rightarrow> Cluster list" where
  "no_clusters pf = []"

definition one_cluster :: "pyval \<Rightarrow> Cluster list" where
  "one_cluster pf = [cluster_b]"

definition two_clusters :: "pyval \<Rightarrow> Cluster list" where
  "two_clusters pf = [cluster_a, cluster_b]"

definition world0 :: world where
  "world0 = \<lparr>tick = 0, sleeps = [], create_calls = []\<rparr>"

section \<open>What a run did, and when a run ends\<close>

text \<open>The \<open>create_worker_build\<close> calls made between two states of the world.\<close>

definition new_calls :: "world \<Rightarrow> world \<Rightarrow> (string \<times> kwargs \<times> (error + Build)) list" where
  "new_calls w w' = drop (length (create_calls w)) (create_calls w')"

definition upload_dir_passed ::
  "OrchestrateBuildPlugin \<Rightarrow> string \<times> kwargs \<times> (error + Build) \<Rightarrow> bool" where
  \<comment> \<open>the call was given the plugin's \<open>koji_upload_dir\<close>, or the override of that key\<close>
  "upload_dir_passed self call =
     (fst (snd call) ''koji_upload_dir'' =
        (case workflow_override_kwargs self ''koji_upload_dir'' of
           None \<Rightarrow> Some (PyStr (koji_upload_dir self))
         | Some v \<Rightarrow> Some v))"

definition created :: "string \<times> kwargs \<times> (error + Build) \<Rightarrow> bool" where
  \<comment> \<open>the call returned a build\<close>
  "created call = (\<not> isl (snd (snd call)))"

text \<open>
  The failures a context can still count, and their sum over the contexts of a
  platform. A clock passes when it is, from some step on, at or after any given
  instant.
\<close>

definition remaining :: "ClusterRetryContext \<Rightarrow> nat" where
  "remaining ctx = nat (max_cluster_fails ctx - fails ctx)"

definition remaining_total :: "retry_contexts \<Rightarrow> nat" where
  "remaining_total contexts = sum_list (map (\<lambda>(n, ctx). remaining ctx) contexts)"

definition clock_passes :: "env \<Rightarrow> bool" where
  "clock_passes e = (\<forall>t. \<exists>K. \<forall>k \<ge> K. t \<le> now_at e k)"

definition live_ctx :: "retry_contexts \<Rightarrow> ClusterInfo \<Rightarrow> bool" where
  \<comment> \<open>the info's cluster has a context, and it is not failed\<close>
  "live_ctx contexts ci =
     (case map_of contexts (name (cluster ci)) of Some ctx \<Rightarrow> \<not> failed ctx | None \<Rightarrow> False)"

definition settled :: "env \<Rightarrow> nat \<Rightarrow> retry_contexts \<Rightarrow> bool" where
  \<comment> \<open>from step \<open>K\<close> on the clock is past every context's \<open>retry_at\<close>\<close>
  "settled e K contexts = (\<forall>k \<ge> K. \<forall>ctx \<in> snd ` set contexts. retry_at ctx \<le> now_at e k)"

section \<open>Properties of the retry context\<close>

lemma failed_try_again_later:
  "failed ctx \<Longrightarrow> failed (try_again_later now seconds ctx)"
  by (simp add: try_again_later_def)

lemma failed_fold_try_again_later:
  "failed ctx \<Longrightarrow> failed (fold (\<lambda>(now, seconds). try_again_later now seconds) calls ctx)"
  by (induction calls arbitrary: ctx) (auto simp: try_again_later_def)


section \<open>The order of the clusters returned\<close>

lemma insort_key_second_key:
  fixes f :: "'a \<Rightarrow> 'b::linorder" and g :: "'a \<Rightarrow> 'c::linorder"
  assumes "sorted_wrt (\<lambda>a b. g a < g b \<or> (g a = g b \<and> f a \<le> f b)) zs"
    and "\<forall>z \<in> set zs. f y \<le> f z"
  shows "sorted_wrt (\<lambda>a b. g a < g b \<or> (g a = g b \<and> f a \<le> f b)) (insort_key g y zs)"
  using assms
proof (induction zs)
  case Nil
  then show ?case by simp
next
  case (Cons z zs)
  show ?case
  proof (cases "g y \<le> g z")
    case True
    have "\<forall>x \<in> set zs. g z \<le> g x" using Cons.prems(1) by auto
    then have "\<forall>x \<in> set (z # zs). g y \<le> g x" using True by auto
    then have "\<forall>x \<in> set (z # zs). g y < g x \<or> (g y = g x \<and> f y \<le> f x)"
      using Cons.prems(2) by (metis order_le_less)
    then show ?thesis using True Cons.prems(1) by simp
  next
    case False
    then have lt: "g z < g y" by simp
    have ih: "sorted_wrt (\<lambda>a b. g a < g b \<or> (g a = g b \<and> f a \<le> f b)) (insort_key g y zs)"
      using Cons.IH Cons.prems by simp
    show ?thesis using False lt ih Cons.prems(1) by (auto simp: set_insort_key)
  qed
qed

lemma sort_key_second_key:
  fixes f :: "'a \<Rightarrow> 'b::linorder" and g :: "'a \<Rightarrow> 'c::linorder"
  assumes "sorted (map f ys)"
  shows "sorted_wrt (\<lambda>a b. g a < g b \<or> (g a = g b \<and> f a \<le> f b)) (sort_key g ys)"
  using assms
proof (induction ys)
  case Nil
  then show ?case by simp
next
  case (Cons y ys)
  have "\<forall>z \<in> set (sort_key g ys). f y \<le> f z" using Cons.prems by auto
  moreover have "sorted_wrt (\<lambda>a b. g a < g b \<or> (g a = g b \<and> f a \<le> f b)) (sort_key g ys)"
    using Cons by simp
  ultimately show ?case by (simp add: insort_key_second_key)
qed

lemma get_clusters_ret_sorted: "sorted_wrt load_then_priority (get_clusters_ret possible)"
proof -
  have "sorted (map (\<lambda>c. priority (cluster c)) (sort_key (\<lambda>c. priority (cluster c)) possible))"
    by simp
  from sort_key_second_key [OF this, of load]
  have "sorted_wrt (\<lambda>a b. load a < load b
                      \<or> (load a = load b \<and> priority (cluster a) \<le> priority (cluster b)))
          (get_clusters_ret possible)"
    by (simp add: get_clusters_ret_def)
  moreover have "load_then_priority = (\<lambda>a b. load a < load b
                      \<or> (load a = load b \<and> priority (cluster a) \<le> priority (cluster b)))"
    by (intro ext) (simp add: load_then_priority_def)
  ultimately show ?thesis by simp
qed

lemma get_clusters_Inr_ret:
  "get_clusters fuel e self pf contexts all_clusters w = Some (Inr ret, st)
   \<Longrightarrow> \<exists>possible. ret = get_clusters_ret possible"
  by (auto simp: get_clusters_def split: option.splits sum.splits prod.splits)

lemma get_clusters_example:
  "get_clusters 1 example_env example_self (PyStr ''x86_64'')
     (fresh_retry_contexts 2 [cluster_a, cluster_b]) [cluster_a, cluster_b] world0
   = Some (Inr [info_b, info_a],
           fresh_retry_contexts 2 [cluster_a, cluster_b],
           \<lparr>tick = 5, sleeps = [0], create_calls = []\<rparr>)"
  by (simp add: get_clusters_def example_env_def example_self_def cluster_a_def cluster_b_def
      world0_def fresh_retry_contexts_def ClusterRetryContext_init_def wait_for_any_cluster_def
      failed_def utcfromtimestamp0_def timedelta_seconds_attr_def step_def in_retry_wait_def
      get_cluster_info_def get_clusters_ret_def info_a_def info_b_def
      OrchestrateBuildPlugin_init_def)

text \<open>
  C1 as stated fails: cluster \<open>a\<close> has the better priority, yet \<open>b\<close>, with the
  smaller load, is returned first, so the list is not ordered by priority first.
\<close>

theorem get_clusters_priority_first_counterexample:
  "map_option fst (get_clusters 1 example_env example_self (PyStr ''x86_64'')
       (fresh_retry_contexts 2 [cluster_a, cluster_b]) [cluster_a, cluster_b] world0)
     = Some (Inr [info_b, info_a])
   \<and> \<not> sorted_wrt priority_then_load [info_b, info_a]"
  using get_clusters_example
  by (simp add: priority_then_load_def info_a_def info_b_def cluster_a_def cluster_b_def)

text \<open>
  C1, amended: the list returned by \<open>get_clusters\<close> holds the probed infos
  ordered by ascending load, and by ascending priority among equal loads; the
  load is the primary key and the priority breaks ties.
\<close>

theorem get_clusters_sorted_by_load_then_priority:
  "sorted_wrt load_then_priority (get_clusters_ret possible)
   \<and> mset (get_clusters_ret possible) = mset possible
   \<and> (get_clusters fuel e self pf contexts all_clusters w = Some (Inr ret, st)
        \<longrightarrow> sorted_wrt load_then_priority ret)"
  using get_clusters_ret_sorted get_clusters_Inr_ret [of fuel e self pf contexts all_clusters w ret st]
  by (auto simp: get_clusters_ret_def)

theorem get_clusters_sorted_by_load_then_priority_witness:
  "get_clusters 1 example_env example_self (PyStr ''x86_64'')
     (fresh_retry_contexts 2 [cluster_a, cluster_b]) [cluster_a, cluster_b] world0
   = Some (Inr [info_b, info_a],
           fresh_retry_contexts 2 [cluster_a, cluster_b],
           \<lparr>tick = 5, sleeps = [0], create_calls = []\<rparr>)
   \<and> sorted_wrt load_then_priority [info_b, info_a]"
  using get_clusters_sorted_by_load_then_priority
          [of "[]" 1 example_env example_self "PyStr ''x86_64''"
              "fresh_retry_contexts 2 [cluster_a, cluster_b]" "[cluster_a, cluster_b]" world0
              "[info_b, info_a]"
              "(fresh_retry_contexts 2 [cluster_a, cluster_b],
                \<lparr>tick = 5, sleeps = [0], create_calls = []\<rparr>)"]
        get_clusters_example
  by simp

section \<open>Waiting for a cluster\<close>

lemma live_empty_iff:
  "(map retry_at (filter (\<lambda>ctx. \<not> failed ctx) (map snd contexts)) = [])
   \<longleftrightarrow> (\<forall>ctx \<in> snd ` set contexts. failed ctx)"
  by (auto simp: filter_empty_conv)

lemma wait_raises_iff:
  "wait_for_any_cluster now contexts = Inl AllClustersFailedException
   \<longleftrightarrow> (\<forall>ctx \<in> snd ` set contexts. failed ctx)"
  unfolding wait_for_any_cluster_def Let_def live_empty_iff by simp

lemma wait_sleeps:
  assumes "\<not> (\<forall>ctx \<in> snd ` set contexts. failed ctx)"
  shows "wait_for_any_cluster now contexts
         = Inr (timedelta_seconds_attr (spec_sleep_duration now contexts))"
  using assms
  unfolding wait_for_any_cluster_def Let_def live_empty_iff spec_sleep_duration_def
  by simp

lemma seconds_attr_floor:
  "0 \<le> td \<Longrightarrow> td < 86400 * 1000000 \<Longrightarrow> timedelta_seconds_attr td = td div 1000000"
  unfolding timedelta_seconds_attr_def
  by (simp add: zdiv_mono1 div_less_iff_less_mult pos_imp_zdiv_nonneg_iff)

lemma wait_zero:
  assumes "ctx \<in> snd ` set contexts" "\<not> failed ctx" "retry_at ctx \<le> now"
  shows "wait_for_any_cluster now contexts = Inr 0"
proof -
  let ?live = "map retry_at (filter (\<lambda>ctx. \<not> failed ctx) (map snd contexts))"
  have mem: "retry_at ctx \<in> set ?live" using assms(1,2) by auto
  then have ne: "?live \<noteq> []" by (metis emptyE empty_set)
  have "Min (set ?live) \<le> retry_at ctx" using mem by (intro Min_le) auto
  then have "max 0 (Min (set ?live) - now) = 0" using assms(3) by simp
  then show ?thesis using ne
    by (simp add: wait_for_any_cluster_def Let_def timedelta_seconds_attr_def)
qed

lemma fresh_not_failed: "0 < m \<Longrightarrow> \<not> failed (ClusterRetryContext_init m)"
  by (simp add: failed_def ClusterRetryContext_init_def)

text \<open>
  C4 as stated fails: with the only context due in 1.5 seconds the function
  asks \<open>time.sleep\<close> for 1 second, not for the 1.5 seconds that
  \<open>max(0, earliest retry_at - now)\<close> is.
\<close>

theorem wait_for_any_cluster_sleep_counterexample:
  "wait_for_any_cluster 0 [(''a'', \<lparr>fails = 0, retry_at = 1500000, max_cluster_fails = 1\<rparr>)]
     = Inr 1
   \<and> spec_sleep_duration 0 [(''a'', \<lparr>fails = 0, retry_at = 1500000, max_cluster_fails = 1\<rparr>)]
     = 1500000
   \<and> (1 :: int) * 1000000 \<noteq> 1500000"
  by (simp add: wait_for_any_cluster_def spec_sleep_duration_def failed_def
      timedelta_seconds_attr_def)

text \<open>
  C4, amended: \<open>wait_for_any_cluster\<close> raises \<open>AllClustersFailedException\<close> exactly
  when every context is failed; otherwise, when the earliest retry of a context
  that is not failed is less than a day away, it sleeps the whole seconds of
  \<open>max(0, earliest retry_at - now)\<close> and returns.
\<close>

theorem wait_for_any_cluster_raises_or_sleeps:
  "(wait_for_any_cluster now contexts = Inl AllClustersFailedException
      \<longleftrightarrow> (\<forall>ctx \<in> snd ` set contexts. failed ctx))
   \<and> ((\<exists>ctx \<in> snd ` set contexts. \<not> failed ctx)
        \<and> spec_sleep_duration now contexts < 86400 * 1000000
      \<longrightarrow> wait_for_any_cluster now contexts
            = Inr (spec_sleep_duration now contexts div 1000000))"
proof -
  have nonneg: "0 \<le> spec_sleep_duration now contexts"
    by (simp add: spec_sleep_duration_def)
  show ?thesis
    using wait_raises_iff [of now contexts] wait_sleeps [of contexts now]
      seconds_attr_floor [OF nonneg]
    by auto
qed

theorem wait_for_any_cluster_raises_or_sleeps_witness:
  "failed \<lparr>fails = 1, retry_at = 1500000, max_cluster_fails = 1\<rparr>
   \<and> wait_for_any_cluster 0 [(''a'', \<lparr>fails = 1, retry_at = 1500000, max_cluster_fails = 1\<rparr>)]
       = Inl AllClustersFailedException
   \<and> \<not> failed \<lparr>fails = 0, retry_at = 12500000, max_cluster_fails = 1\<rparr>
   \<and> spec_sleep_duration 2000000
         [(''a'', \<lparr>fails = 1, retry_at = 0, max_cluster_fails = 1\<rparr>),
          (''b'', \<lparr>fails = 0, retry_at = 12500000, max_cluster_fails = 1\<rparr>)] < 86400 * 1000000
   \<and> wait_for_any_cluster 2000000
         [(''a'', \<lparr>fails = 1, retry_at = 0, max_cluster_fails = 1\<rparr>),
          (''b'', \<lparr>fails = 0, retry_at = 12500000, max_cluster_fails = 1\<rparr>)] = Inr 10"
  using wait_for_any_cluster_raises_or_sleeps
          [of 0 "[(''a'', \<lparr>fails = 1, retry_at = 1500000, max_cluster_fails = 1\<rparr>)]"]
        wait_for_any_cluster_raises_or_sleeps
          [of 2000000 "[(''a'', \<lparr>fails = 1, retry_at = 0, max_cluster_fails = 1\<rparr>),
                        (''b'', \<lparr>fails = 0, retry_at = 12500000, max_cluster_fails = 1\<rparr>)]"]
  by (simp add: failed_def spec_sleep_duration_def)


section \<open>The platforms of a run\<close>

lemma get_platforms_no_file: "get_platforms user None = Inr (user, user)"
  by (simp add: get_platforms_def)

lemma get_platforms_null_doc: "get_platforms user (Some PyNone) = Inr (user, user)"
  by (simp add: get_platforms_def)

lemma get_platforms_no_key:
  "map_of kvs ''platforms'' = None \<Longrightarrow> get_platforms user (Some (PyDict kvs)) = Inr (user, user)"
  by (simp add: get_platforms_def map_of_eq_None_iff)

lemma get_platforms_null_key:
  "map_of kvs ''platforms'' = Some PyNone
   \<Longrightarrow> get_platforms user (Some (PyDict kvs)) = Inr (user, user)"
  by (auto simp: get_platforms_def split: bool.splits)

lemma map_of_Some_fst: "map_of kvs k = Some v \<Longrightarrow> k \<in> fst ` set kvs"
  by (metis map_of_eq_None_iff option.distinct(1))

lemma get_platforms_filters:
  assumes "map_of kvs ''platforms'' = Some (PyDict p)"
    and "py_get (PyDict p) ''only'' (PyList []) = Inr only_value"
    and "py_get (PyDict p) ''not'' (PyList []) = Inr not_value"
    and "list_all hashable (make_list only_value)" "list_all hashable (make_list not_value)"
  shows "get_platforms user (Some (PyDict kvs)) =
     Inr (if make_list only_value \<noteq> [] then user \<inter> set (make_list only_value) else user,
          (if make_list only_value \<noteq> [] then user \<inter> set (make_list only_value) else user)
            - set (make_list not_value))"
proof -
  have c: "py_contains (PyDict kvs) ''platforms'' = Inr True"
    using map_of_Some_fst [OF assms(1)] by simp
  have g: "py_getitem (PyDict kvs) ''platforms'' = Inr (PyDict p)"
    using assms(1) by simp
  show ?thesis
    unfolding get_platforms_def
    using assms(4,5)
    by (simp add: c g assms(2,3) py_set_def Let_def
        del: py_get.simps py_contains.simps py_getitem.simps)
qed

lemma get_platforms_example:
  "get_platforms {PyStr ''x86_64'', PyStr ''ppc64le'', PyStr ''s390x''}
     (Some (PyDict [(''platforms'',
        PyDict [(''only'', PyList [PyStr ''x86_64'', PyStr ''ppc64le'']),
                (''not'', PyList [PyStr ''ppc64le''])])]))
   = Inr ({PyStr ''x86_64'', PyStr ''ppc64le''}, {PyStr ''x86_64''})"
proof -
  have 1: "{PyStr ''x86_64'', PyStr ''ppc64le'', PyStr ''s390x''}
             \<inter> {PyStr ''x86_64'', PyStr ''ppc64le''}
           = {PyStr ''x86_64'', PyStr ''ppc64le''}" by auto
  have 2: "{PyStr ''x86_64'', PyStr ''ppc64le''} - {PyStr ''ppc64le''} = {PyStr ''x86_64''}"
    by auto
  show ?thesis
    by (simp add: get_platforms_def py_set_def make_list_def Let_def 1 2)
qed

text \<open>
  C6: without the file, with an empty document, and with the \<open>platforms\<close> key
  missing or null, \<open>get_platforms\<close> returns the user's set; otherwise the set
  is intersected with \<open>only\<close> when that is given and \<open>not\<close> is subtracted in
  either case. The user's \<open>x86_64\<close>, \<open>ppc64le\<close> and \<open>s390x\<close> with \<open>only\<close> the
  first two and \<open>not\<close> the second give \<open>x86_64\<close> alone.
\<close>

theorem get_platforms_resolution:
  "get_platforms user None = Inr (user, user)
   \<and> get_platforms user (Some PyNone) = Inr (user, user)
   \<and> (map_of kvs ''platforms'' = None
        \<longrightarrow> get_platforms user (Some (PyDict kvs)) = Inr (user, user))
   \<and> (map_of kvs ''platforms'' = Some PyNone
        \<longrightarrow> get_platforms user (Some (PyDict kvs)) = Inr (user, user))
   \<and> (map_of kvs ''platforms'' = Some (PyDict p)
        \<and> py_get (PyDict p) ''only'' (PyList []) = Inr only_value
        \<and> py_get (PyDict p) ''not'' (PyList []) = Inr not_value
        \<and> list_all hashable (make_list only_value) \<and> list_all hashable (make_list not_value)
        \<longrightarrow> get_platforms user (Some (PyDict kvs))
              = Inr (if make_list only_value \<noteq> []
                     then user \<inter> set (make_list only_value) else user,
                     (if make_list only_value \<noteq> []
                      then user \<inter> set (make_list only_value) else user)
                     - set (make_list not_value)))
   \<and> get_platforms {PyStr ''x86_64'', PyStr ''ppc64le'', PyStr ''s390x''}
         (Some (PyDict [(''platforms'',
            PyDict [(''only'', PyList [PyStr ''x86_64'', PyStr ''ppc64le'']),
                    (''not'', PyList [PyStr ''ppc64le''])])]))
       = Inr ({PyStr ''x86_64'', PyStr ''ppc64le''}, {PyStr ''x86_64''})"
  using get_platforms_no_file [of user] get_platforms_null_doc [of user]
    get_platforms_no_key [of kvs user] get_platforms_null_key [of kvs user]
    get_platforms_filters [of kvs p only_value not_value user]
    get_platforms_example
  by blast

theorem get_platforms_resolution_witness:
  "map_of [(''autorebuild'', PyBool True)] ''platforms'' = None
   \<and> get_platforms {PyStr ''x86_64''} (Some (PyDict [(''autorebuild'', PyBool True)]))
       = Inr ({PyStr ''x86_64''}, {PyStr ''x86_64''})
   \<and> map_of [(''platforms'', PyNone)] ''platforms'' = Some PyNone
   \<and> get_platforms {PyStr ''x86_64''} (Some (PyDict [(''platforms'', PyNone)]))
       = Inr ({PyStr ''x86_64''}, {PyStr ''x86_64''})
   \<and> map_of [(''platforms'', PyDict [(''only'', PyStr ''x86_64''), (''not'', PyList [PyStr ''s390x''])])]
        ''platforms''
       = Some (PyDict [(''only'', PyStr ''x86_64''), (''not'', PyList [PyStr ''s390x''])])
   \<and> py_get (PyDict [(''only'', PyStr ''x86_64''), (''not'', PyList [PyStr ''s390x''])])
        ''only'' (PyList []) = Inr (PyStr ''x86_64'')
   \<and> py_get (PyDict [(''only'', PyStr ''x86_64''), (''not'', PyList [PyStr ''s390x''])])
        ''not'' (PyList []) = Inr (PyList [PyStr ''s390x''])
   \<and> list_all hashable (make_list (PyStr ''x86_64''))
   \<and> list_all hashable (make_list (PyList [PyStr ''s390x'']))
   \<and> get_platforms {PyStr ''x86_64'', PyStr ''s390x''}
         (Some (PyDict [(''platforms'',
            PyDict [(''only'', PyStr ''x86_64''), (''not'', PyList [PyStr ''s390x''])])]))
       = Inr ({PyStr ''x86_64''}, {PyStr ''x86_64''})"
  using get_platforms_resolution
          [of "{PyStr ''x86_64''}" "[(''autorebuild'', PyBool True)]"]
        get_platforms_resolution
          [of "{PyStr ''x86_64''}" "[(''platforms'', PyNone)]"]
        get_platforms_resolution
          [of "{PyStr ''x86_64'', PyStr ''s390x''}"
              "[(''platforms'', PyDict [(''only'', PyStr ''x86_64''), (''not'', PyList [PyStr ''s390x''])])]"
              "[(''only'', PyStr ''x86_64''), (''not'', PyList [PyStr ''s390x''])]"
              "PyStr ''x86_64''" "PyList [PyStr ''s390x'']"]
  by (simp add: make_list_def insert_Diff_if)

text \<open>
  C9: when the \<open>platforms\<close> mapping has no \<open>only\<close> key, or an empty list under
  it, nothing is intersected: the user's set less the \<open>not\<close> exclusions is
  returned, and \<open>self.platforms\<close> stays as it was.
\<close>

theorem get_platforms_empty_only_is_no_restriction:
  "map_of kvs ''platforms'' = Some (PyDict p)
   \<and> (map_of p ''only'' = None \<or> map_of p ''only'' = Some (PyList []))
   \<and> py_get (PyDict p) ''not'' (PyList []) = Inr not_value
   \<and> list_all hashable (make_list not_value)
   \<longrightarrow> get_platforms user (Some (PyDict kvs)) = Inr (user, user - set (make_list not_value))"
proof (intro impI, elim conjE)
  assume a: "map_of kvs ''platforms'' = Some (PyDict p)"
    and o: "map_of p ''only'' = None \<or> map_of p ''only'' = Some (PyList [])"
    and n: "py_get (PyDict p) ''not'' (PyList []) = Inr not_value"
    and h: "list_all hashable (make_list not_value)"
  have "py_get (PyDict p) ''only'' (PyList []) = Inr (PyList [])" using o by auto
  from get_platforms_filters [OF a this n _ h, of user]
  show "get_platforms user (Some (PyDict kvs)) = Inr (user, user - set (make_list not_value))"
    by (simp add: make_list_def)
qed

theorem get_platforms_empty_only_is_no_restriction_witness:
  "map_of [(''platforms'', PyDict [(''only'', PyList []), (''not'', PyStr ''s390x'')])] ''platforms''
     = Some (PyDict [(''only'', PyList []), (''not'', PyStr ''s390x'')])
   \<and> map_of [(''only'', PyList []), (''not'', PyStr ''s390x'')] ''only'' = Some (PyList [])
   \<and> py_get (PyDict [(''only'', PyList []), (''not'', PyStr ''s390x'')]) ''not'' (PyList [])
     = Inr (PyStr ''s390x'')
   \<and> list_all hashable (make_list (PyStr ''s390x''))
   \<and> get_platforms {PyStr ''x86_64'', PyStr ''s390x''}
        (Some (PyDict [(''platforms'', PyDict [(''only'', PyList []), (''not'', PyStr ''s390x'')])]))
     = Inr ({PyStr ''x86_64'', PyStr ''s390x''}, {PyStr ''x86_64''})"
  using get_platforms_empty_only_is_no_restriction
          [of "[(''platforms'', PyDict [(''only'', PyList []), (''not'', PyStr ''s390x'')])]"
              "[(''only'', PyList []), (''not'', PyStr ''s390x'')]"
              "PyStr ''s390x''" "{PyStr ''x86_64'', PyStr ''s390x''}"]
  by (simp add: make_list_def insert_Diff_if)

section \<open>The upload directory\<close>

lemma random_chars_letters:
  "list_all is_letter (map (\<lambda>i. random_choice ascii_letters (draws i)) [0..<8])"
proof -
  have "random_choice ascii_letters r \<in> set ascii_letters" for r
    unfolding random_choice_def by (rule nth_mem) (simp add: ascii_letters_def)
  then have "is_letter (random_choice ascii_letters r)" for r
    by (simp add: is_letter_def ascii_letters_def)
  then show ?thesis by (simp add: list_all_iff)
qed

lemma dot_letters8_I: "length ls = 8 \<Longrightarrow> list_all is_letter ls \<Longrightarrow> dot_letters8 (''.'' @ ls)"
  by (simp add: dot_letters8_def)

lemma not_digit_dot: "\<not> is_digit CHR ''.''"
  by (simp add: is_digit_def)

lemma pattern_frac:
  assumes "ds \<noteq> []" "\<forall>x \<in> set ds. is_digit x" "fs \<noteq> []" "\<forall>x \<in> set fs. is_digit x"
    "length ls = 8" "list_all is_letter ls"
  shows "matches_upload_dir_pattern (''koji-upload/'' @ (ds @ ''.'' @ fs) @ ''.'' @ ls)"
proof -
  have dl: "dot_letters8 (''.'' @ ls)" using assms(5,6) by (rule dot_letters8_I)
  have tw: "takeWhile is_digit (ds @ ''.'' @ fs @ ''.'' @ ls) = ds"
    using assms(2) by (simp add: takeWhile_append2 not_digit_dot)
  have dw: "dropWhile is_digit (ds @ ''.'' @ fs @ ''.'' @ ls) = ''.'' @ fs @ ''.'' @ ls"
    using assms(2) by (simp add: dropWhile_append2 not_digit_dot)
  have tw2: "takeWhile is_digit (fs @ ''.'' @ ls) = fs"
    using assms(4) by (simp add: takeWhile_append2 not_digit_dot)
  have dw2: "dropWhile is_digit (fs @ ''.'' @ ls) = ''.'' @ ls"
    using assms(4) by (simp add: dropWhile_append2 not_digit_dot)
  show ?thesis
    unfolding matches_upload_dir_pattern_def Let_def using assms(1,3) dl tw dw tw2 dw2 by simp
qed

lemma is_digit_digit_char: "d < 10 \<Longrightarrow> is_digit (digit_char d)"
proof -
  assume "d < 10"
  then have "''0123456789'' ! d \<in> set ''0123456789''" by (intro nth_mem) simp
  then show ?thesis unfolding is_digit_def digit_char_def .
qed

lemma digit_char_zero_iff: "d < 10 \<Longrightarrow> digit_char d = CHR ''0'' \<longleftrightarrow> d = 0"
proof -
  assume "d < 10"
  then have "d \<in> {0, 1, 2, 3, 4, 5, 6, 7, 8, 9}" by auto
  then show ?thesis by (auto simp: digit_char_def)
qed

lemma is_digit_zero: "is_digit CHR ''0''"
  by (simp add: is_digit_def)

lemma digits_of_nonempty: "digits_of n \<noteq> []"
  by (subst digits_of.simps) simp

lemma digits_of_digits: "\<forall>c \<in> set (digits_of n). is_digit c"
proof (induction n rule: digits_of.induct)
  case (1 n)
  show ?case
  proof (cases "n < 10")
    case True
    then have "nat n < 10" by simp
    then show ?thesis using True by (subst digits_of.simps) (simp add: is_digit_digit_char)
  next
    case False
    have "nat (n mod 10) < 10" by simp
    then show ?thesis using 1 False by (subst digits_of.simps) (simp add: is_digit_digit_char)
  qed
qed

lemma hd_digits_of: "0 < n \<Longrightarrow> hd (digits_of n) \<noteq> CHR ''0''"
proof (induction n rule: digits_of.induct)
  case (1 n)
  show ?case
  proof (cases "n < 10")
    case True
    then have "nat n < 10" "nat n \<noteq> 0" using 1(2) by simp_all
    then show ?thesis using True by (subst digits_of.simps) (simp add: digit_char_zero_iff)
  next
    case False
    then have "0 < n div 10" by simp
    then have "hd (digits_of (n div 10)) \<noteq> CHR ''0''" using 1(1) False by blast
    then show ?thesis using False
      by (subst digits_of.simps) (simp add: digits_of_nonempty)
  qed
qed

lemma digits_of_bounds:
  "0 < n \<Longrightarrow> 10 ^ (length (digits_of n) - 1) \<le> n \<and> n < 10 ^ length (digits_of n)"
proof (induction n rule: digits_of.induct)
  case (1 n)
  show ?case
  proof (cases "n < 10")
    case True
    then show ?thesis using 1(2) by (subst (1 2) digits_of.simps) simp
  next
    case False
    then have pos: "0 < n div 10" by simp
    define k where "k = length (digits_of (n div 10))"
    have kpos: "0 < k" unfolding k_def using digits_of_nonempty by simp
    have ih: "10 ^ (k - 1) \<le> n div 10" "n div 10 < 10 ^ k"
      using 1(1) False pos unfolding k_def by blast+
    have len: "length (digits_of n) = Suc k"
      using False unfolding k_def by (subst digits_of.simps) simp
    have "10 * 10 ^ (k - 1) \<le> 10 * (n div 10)" using ih(1) by simp
    also have "\<dots> \<le> n" by simp
    finally have lo: "10 ^ k \<le> n" using kpos by (cases k) simp_all
    have "n div 10 + 1 \<le> 10 ^ k" using ih(2) by simp
    then have "10 * (n div 10 + 1) \<le> 10 * 10 ^ k" by simp
    moreover have "n < 10 * (n div 10 + 1)" by simp
    ultimately have hi: "n < 10 ^ Suc k" by simp
    show ?thesis using lo hi len by simp
  qed
qed

lemma shortest_digits_digits:
  assumes "0 \<le> m"
  shows "shortest_digits m \<noteq> []" "\<forall>c \<in> set (shortest_digits m). is_digit c"
proof -
  have "shortest_digits m \<noteq> [] \<and> (\<forall>c \<in> set (shortest_digits m). is_digit c)"
  proof (cases "m = 0")
    case True
    then show ?thesis by (simp add: shortest_digits_def is_digit_zero)
  next
    case False
    then have m: "0 < m" using assms by simp
    define ds where "ds = rev (dropWhile (\<lambda>c. c = CHR ''0'') (rev (digits_of m)))"
    have "hd (digits_of m) \<in> set (digits_of m)" using digits_of_nonempty by simp
    then have "hd (digits_of m) \<in> set (rev (digits_of m))" by simp
    moreover have "hd (digits_of m) \<noteq> CHR ''0''" using m by (rule hd_digits_of)
    ultimately have "dropWhile (\<lambda>c. c = CHR ''0'') (rev (digits_of m)) \<noteq> []"
      by (metis (mono_tags, lifting) dropWhile_eq_Nil_conv)
    then have ne: "ds \<noteq> []" by (simp add: ds_def)
    have "set ds \<subseteq> set (digits_of m)"
      unfolding ds_def using set_dropWhileD by fastforce
    then have "\<forall>c \<in> set ds. is_digit c" using digits_of_digits by blast
    then show ?thesis using ne False by (simp add: shortest_digits_def ds_def)
  qed
  then show "shortest_digits m \<noteq> []" "\<forall>c \<in> set (shortest_digits m). is_digit c" by blast+
qed

lemma clock_in_range_decpt:
  assumes "0 < m" "1 / 10 ^ 4 \<le> real_of_int m * 10 powi e" "real_of_int m * 10 powi e < 10 ^ 16"
  shows "- 4 < int (length (digits_of m)) + e" "int (length (digits_of m)) + e \<le> 16"
proof -
  define k where "k = length (digits_of m)"
  have b: "10 ^ (k - 1) \<le> m" "m < 10 ^ k"
    using digits_of_bounds [OF assms(1)] by (simp_all add: k_def)
  have kpos: "0 < k" unfolding k_def using digits_of_nonempty by simp
  have p: "(0::real) < 10 powi e" by simp
  have "real_of_int m < real_of_int (10 ^ k)" using b(2) by (simp only: of_int_less_iff)
  then have "real_of_int m < 10 ^ k" by simp
  then have "real_of_int m * 10 powi e < 10 ^ k * 10 powi e" using p by simp
  also have "\<dots> = (10::real) powi (int k + e)" by (simp add: power_int_add)
  finally have "(10::real) powi (- 4) < 10 powi (int k + e)"
    using assms(2) by (simp add: power_int_minus field_simps)
  then have "- 4 < int k + e"
    by (smt (verit) power_int_increasing)
  then show "- 4 < int (length (digits_of m)) + e" by (simp add: k_def)
  have "real_of_int (10 ^ (k - 1)) \<le> real_of_int m" using b(1) by (simp only: of_int_le_iff)
  then have "(10::real) ^ (k - 1) \<le> real_of_int m" by simp
  then have le: "10 ^ (k - 1) * 10 powi e \<le> real_of_int m * 10 powi e" using p by simp
  have eq: "(10::real) ^ (k - 1) * 10 powi e = 10 powi (int k - 1 + e)"
    using kpos by (simp add: power_int_add of_nat_diff flip: power_int_of_nat)
  have "(10::real) powi (int k - 1 + e) \<le> real_of_int m * 10 powi e" using le unfolding eq .
  also have "\<dots> < 10 ^ 16" by (rule assms(3))
  also have "(10::real) ^ 16 = 10 powi 16" by simp
  finally have "(10::real) powi (int k - 1 + e) < 10 powi 16" .
  then have "int k - 1 + e < 16"
    by (smt (verit) power_int_increasing)
  then show "int (length (digits_of m)) + e \<le> 16" by (simp add: k_def)
qed

lemma format_float_short_positional:
  assumes "ds \<noteq> []" "\<forall>c \<in> set ds. is_digit c" "- 4 < decpt" "decpt \<le> 16"
  shows "\<exists>ip fp. format_float_short ds decpt = ip @ ''.'' @ fp
           \<and> ip \<noteq> [] \<and> (\<forall>c \<in> set ip. is_digit c) \<and> fp \<noteq> [] \<and> (\<forall>c \<in> set fp. is_digit c)"
proof -
  consider (small) "decpt \<le> 0" | (inside) "0 < decpt" "nat decpt < length ds"
    | (integer) "0 < decpt" "\<not> nat decpt < length ds"
    by linarith
  then show ?thesis
  proof cases
    case small
    let ?ip = "''0''" and ?fp = "replicate (nat (- decpt)) CHR ''0'' @ ds"
    have "?ip \<noteq> [] \<and> (\<forall>c \<in> set ?ip. is_digit c) \<and> ?fp \<noteq> [] \<and> (\<forall>c \<in> set ?fp. is_digit c)"
      using assms(1,2) by (auto simp: is_digit_zero)
    then show ?thesis using small assms(3,4) unfolding format_float_short_def
      by (intro exI [of _ ?ip] exI [of _ ?fp]) simp
  next
    case inside
    let ?ip = "take (nat decpt) ds" and ?fp = "drop (nat decpt) ds"
    have "?ip \<noteq> []" using inside assms(1) by simp
    moreover have "?fp \<noteq> []" using inside by simp
    moreover have "\<forall>c \<in> set ?ip. is_digit c" using assms(2) by (meson in_set_takeD)
    moreover have "\<forall>c \<in> set ?fp. is_digit c" using assms(2) by (meson in_set_dropD)
    ultimately show ?thesis using inside assms(3,4) unfolding format_float_short_def
      by (intro exI [of _ ?ip] exI [of _ ?fp]) simp
  next
    case integer
    let ?ip = "ds @ replicate (nat decpt - length ds) CHR ''0''" and ?fp = "''0''"
    have "?ip \<noteq> [] \<and> (\<forall>c \<in> set ?ip. is_digit c) \<and> ?fp \<noteq> [] \<and> (\<forall>c \<in> set ?fp. is_digit c)"
      using assms(1,2) by (auto simp: is_digit_zero)
    then show ?thesis using integer assms(3,4) unfolding format_float_short_def
      by (intro exI [of _ ?ip] exI [of _ ?fp]) simp
  qed
qed

lemma clock_in_range_cases:
  assumes "clock_in_range (PyFloat m e)"
  shows "0 \<le> m" "- 4 < decimal_point m e" "decimal_point m e \<le> 16"
proof -
  have p: "(0::real) < 10 powi e" by simp
  have v: "0 \<le> real_of_int m * 10 powi e"
    using assms by (auto simp: clock_in_range_def float_value_def)
  then have "0 \<le> real_of_int m" using p by (simp add: zero_le_mult_iff)
  then show nonneg: "0 \<le> m" by simp
  have "- 4 < decimal_point m e \<and> decimal_point m e \<le> 16"
  proof (cases "m = 0")
    case True
    then show ?thesis by (simp add: decimal_point_def)
  next
    case False
    then have m: "0 < m" using nonneg by simp
    have range: "1 / 10 ^ 4 \<le> real_of_int m * 10 powi e" "real_of_int m * 10 powi e < 10 ^ 16"
      using assms False by (simp_all add: clock_in_range_def float_value_def)
    show ?thesis using clock_in_range_decpt [OF m range] False by (simp add: decimal_point_def)
  qed
  then show "- 4 < decimal_point m e" "decimal_point m e \<le> 16" by blast+
qed

lemma float_repr_positional:
  assumes "clock_in_range x"
  shows "\<exists>ip fp. float_repr x = ip @ ''.'' @ fp
           \<and> ip \<noteq> [] \<and> (\<forall>c \<in> set ip. is_digit c) \<and> fp \<noteq> [] \<and> (\<forall>c \<in> set fp. is_digit c)"
proof (cases x)
  case (PyFloat m e)
  note w = clock_in_range_cases [OF assms [unfolded PyFloat]]
  have "float_repr x = format_float_short (shortest_digits m) (decimal_point m e)"
    using PyFloat w(1) by (simp add: float_repr_def)
  then show ?thesis
    using format_float_short_positional [OF shortest_digits_digits [OF w(1)] w(2,3)]
    by simp
qed

lemma format_float_short_head:
  assumes "ds \<noteq> []" "\<forall>c \<in> set ds. is_digit c"
  shows "\<exists>c cs. format_float_short ds decpt = c # cs \<and> is_digit c"
proof -
  obtain d rest where ds: "ds = d # rest" using assms(1) by (cases ds) auto
  then have d: "is_digit d" using assms(2) by simp
  show ?thesis
    unfolding format_float_short_def ds using d is_digit_zero by (auto simp: take_Cons')
qed

lemma float_repr_head:
  "\<exists>c cs. float_repr x = c # cs \<and> c \<noteq> CHR ''/''"
proof (cases x)
  case (PyFloat m e)
  have "0 \<le> \<bar>m\<bar>" by simp
  from format_float_short_head [OF shortest_digits_digits [OF this]]
  obtain c cs where f: "format_float_short (shortest_digits \<bar>m\<bar>) (decimal_point \<bar>m\<bar> e) = c # cs"
    "is_digit c"
    by blast
  then have "c \<noteq> CHR ''/''" by (auto simp: is_digit_def)
  then show ?thesis using PyFloat f(1) by (cases "m < 0") (simp_all add: float_repr_def)
qed

lemma get_koji_upload_dir_eq:
  "get_koji_upload_dir t draws
     = ''koji-upload/'' @ float_repr t @ ''.''
       @ map (\<lambda>i. random_choice ascii_letters (draws i)) [0..<8]"
proof -
  obtain c cs where t: "float_repr t = c # cs" "c \<noteq> CHR ''/''"
    using float_repr_head by blast
  then show ?thesis unfolding get_koji_upload_dir_def Let_def os_path_join_def by simp
qed

lemma get_koji_upload_dir_matches:
  assumes "clock_in_range t"
  shows "matches_upload_dir_pattern (get_koji_upload_dir t draws)"
proof -
  obtain ip fp where r: "float_repr t = ip @ ''.'' @ fp" "ip \<noteq> []" "\<forall>c \<in> set ip. is_digit c"
    "fp \<noteq> []" "\<forall>c \<in> set fp. is_digit c"
    using float_repr_positional [OF assms] by blast
  have "length (map (\<lambda>i. random_choice ascii_letters (draws i)) [0..<8]) = 8" by simp
  from pattern_frac [OF r(2-5) this random_chars_letters]
  show ?thesis by (simp add: get_koji_upload_dir_eq r(1))
qed



section \<open>Starting a worker build\<close>

lemma set_last_snoc: "set_last f (xs @ [x]) = xs @ [f x]"
  by (simp add: set_last_def)

lemma monitor_failed_cases:
  "\<exists>r w'. monitor_failed e ex (WorkerBuildInfo_init (Some b) ci)
             (self\<lparr>worker_builds := bs @ [bi]\<rparr>, w)
       = (r, self\<lparr>worker_builds := bs @ [bi\<lparr>monitor_exception := Some ex\<rparr>]\<rparr>, w')
     \<and> r \<noteq> Inl OsbsException \<and> create_calls w' = create_calls w \<and> tick w \<le> tick w'"
  by (auto simp: monitor_failed_def cancel_build_def set_last_snoc step_def Let_def
      split: option.splits prod.splits)

lemma do_worker_build_osbs:
  assumes "create_worker_build_at e (tick w) (osbs ci)
             (get_worker_build_kwargs self (release self) (platform ci) (koji_upload_dir self)
                (fs_task_id self) ++ workflow_override_kwargs self) = Inl OsbsException"
  shows "do_worker_build e ci (self, w) =
           (Inl OsbsException, self,
            (step w)\<lparr>create_calls := create_calls w @
               [(osbs ci,
                 get_worker_build_kwargs self (release self) (platform ci) (koji_upload_dir self)
                   (fs_task_id self) ++ workflow_override_kwargs self,
                 Inl OsbsException)]\<rparr>)"
  using assms by (simp add: do_worker_build_def Let_def)

lemma do_worker_build_other:
  assumes "create_worker_build_at e (tick w) (osbs ci)
             (get_worker_build_kwargs self (release self) (platform ci) (koji_upload_dir self)
                (fs_task_id self) ++ workflow_override_kwargs self) = Inl ex"
    and "ex \<noteq> OsbsException"
  shows "do_worker_build e ci (self, w) =
           (Inr (), self\<lparr>worker_builds := worker_builds self @ [WorkerBuildInfo_init None ci]\<rparr>,
            (step w)\<lparr>create_calls := create_calls w @
               [(osbs ci,
                 get_worker_build_kwargs self (release self) (platform ci) (koji_upload_dir self)
                   (fs_task_id self) ++ workflow_override_kwargs self,
                 Inl ex)]\<rparr>)"
  using assms by (simp add: do_worker_build_def Let_def)

lemma do_worker_build_created:
  assumes "create_worker_build_at e (tick w) (osbs ci)
             (get_worker_build_kwargs self (release self) (platform ci) (koji_upload_dir self)
                (fs_task_id self) ++ workflow_override_kwargs self) = Inr b"
  shows "\<exists>r bi w'. do_worker_build e ci (self, w) =
           (r, self\<lparr>worker_builds := worker_builds self @ [bi]\<rparr>, w')
         \<and> r \<noteq> Inl OsbsException
         \<and> create_calls w' = create_calls w @
               [(osbs ci,
                 get_worker_build_kwargs self (release self) (platform ci) (koji_upload_dir self)
                   (fs_task_id self) ++ workflow_override_kwargs self,
                 Inr b)]
         \<and> tick w < tick w'"
proof -
  let ?K = "get_worker_build_kwargs self (release self) (platform ci) (koji_upload_dir self)
                (fs_task_id self) ++ workflow_override_kwargs self"
  let ?w1 = "(step w)\<lparr>create_calls := create_calls w @ [(osbs ci, ?K, Inr b)]\<rparr>"
  let ?bi = "WorkerBuildInfo_init (Some b) ci"
  let ?self1 = "self\<lparr>worker_builds := worker_builds self @ [?bi]\<rparr>"
  have mf: "\<And>ex w2. \<exists>r w'. monitor_failed e ex ?bi (?self1, w2)
       = (r, self\<lparr>worker_builds := worker_builds self @ [?bi\<lparr>monitor_exception := Some ex\<rparr>]\<rparr>, w')
     \<and> r \<noteq> Inl OsbsException \<and> create_calls w' = create_calls w2 \<and> tick w2 \<le> tick w'"
    using monitor_failed_cases [where e = e and b = b and ci = ci and self = self
        and bs = "worker_builds self" and bi = ?bi] by simp
  show ?thesis
  proof (cases "watch_logs_at e (tick ?w1) (wb_name ?bi)")
    case (Some ex)
    from mf [of ex "step ?w1"] obtain r w' where
      "monitor_failed e ex ?bi (?self1, step ?w1)
       = (r, self\<lparr>worker_builds := worker_builds self @ [?bi\<lparr>monitor_exception := Some ex\<rparr>]\<rparr>, w')"
      "r \<noteq> Inl OsbsException" "create_calls w' = create_calls (step ?w1)"
      "tick (step ?w1) \<le> tick w'"
      by blast
    then show ?thesis using assms Some
      by (auto simp: do_worker_build_def Let_def step_def)
  next
    case None
    show ?thesis
    proof (cases "wait_for_build_to_finish_at e (tick (step ?w1)) (wb_name ?bi)")
      case (Inl ex)
      from mf [of ex "step (step ?w1)"] obtain r w' where
        "monitor_failed e ex ?bi (?self1, step (step ?w1))
         = (r, self\<lparr>worker_builds := worker_builds self @ [?bi\<lparr>monitor_exception := Some ex\<rparr>]\<rparr>, w')"
        "r \<noteq> Inl OsbsException" "create_calls w' = create_calls (step (step ?w1))"
        "tick (step (step ?w1)) \<le> tick w'"
        by blast
      then show ?thesis using assms None Inl
        by (auto simp: do_worker_build_def Let_def step_def)
    next
      case (Inr b')
      then show ?thesis using assms None
        by (auto simp: do_worker_build_def Let_def step_def set_last_snoc)
    qed
  qed
qed




text \<open>
  C3 as stated fails: the create call on cluster \<open>a\<close> returns a build and
  raises nothing; following the logs of the build fails, the unfinished build
  is cancelled, and \<open>cancel_build\<close> raises an exception that is not an
  \<open>OsbsException\<close>. That exception leaves \<open>do_worker_build\<close>.
\<close>

theorem do_worker_build_cancel_error_counterexample:
  "create_worker_build_at example_env_cancel_fails (tick world0) (osbs info_a)
       (get_worker_build_kwargs example_self (release example_self) (platform info_a)
          (koji_upload_dir example_self) (fs_task_id example_self)
        ++ workflow_override_kwargs example_self)
     = Inr \<lparr>build_name = ''build-1'', is_finished = False\<rparr>
   \<and> fst (do_worker_build example_env_cancel_fails info_a (example_self, world0))
     = Inl (OtherException ''cancel'')"
  by (simp add: do_worker_build_def monitor_failed_def cancel_build_def Let_def step_def
      wb_name_def WorkerBuildInfo_init_def example_env_cancel_fails_def
      example_env_logs_fail_def example_env_ok_def example_env_def info_a_def world0_def)

text \<open>
  C3, amended: \<open>do_worker_build\<close> raises \<open>OsbsException\<close> exactly when the
  \<open>create_worker_build\<close> call raised it, and then nothing has been appended;
  any other exception of the create call is swallowed: the function returns,
  with a \<open>WorkerBuildInfo\<close> whose \<open>build\<close> is \<open>None\<close> appended. After a create
  call that returned a build, one \<open>WorkerBuildInfo\<close> with that build is
  appended; an exception of \<open>watch_logs\<close> or \<open>wait_to_finish\<close> is kept in its
  \<open>monitor_exception\<close> and never leaves the function; the build is then
  cancelled if it is not finished, and the one exception that leaves
  \<open>do_worker_build\<close> after a successful create call is an exception of that
  \<open>cancel_build\<close> call other than \<open>OsbsException\<close>.
\<close>

theorem do_worker_build_exceptions:
  "(let kwargs = get_worker_build_kwargs self (release self) (platform cluster_info)
                   (koji_upload_dir self) (fs_task_id self) ++ workflow_override_kwargs self;
        created = create_worker_build_at e (tick w) (osbs cluster_info) kwargs;
        after = do_worker_build e cluster_info (self, w)
    in (fst after = Inl OsbsException \<longleftrightarrow> created = Inl OsbsException)
     \<and> (created = Inl OsbsException \<longrightarrow> fst (snd after) = self)
     \<and> (\<forall>ex. created = Inl ex \<and> ex \<noteq> OsbsException \<longrightarrow>
            fst after = Inr ()
          \<and> worker_builds (fst (snd after))
              = worker_builds self @ [WorkerBuildInfo_init None cluster_info]
          \<and> build (WorkerBuildInfo_init None cluster_info) = None
          \<and> wb_platform (WorkerBuildInfo_init None cluster_info) = platform cluster_info)
     \<and> (\<forall>b. created = Inr b \<longrightarrow>
            (let watched = watch_logs_at e (tick w + 1) (build_name b);
                 waited = wait_for_build_to_finish_at e (tick w + 2) (build_name b);
                 monitor_exc = (case watched of
                                  Some ex \<Rightarrow> Some ex
                                | None \<Rightarrow> (case waited of Inl ex \<Rightarrow> Some ex | Inr b' \<Rightarrow> None));
                 cancelled = (if monitor_exc = None \<or> is_finished b then None
                              else cancel_build_at e
                                     (if watched = None then tick w + 3 else tick w + 2)
                                     (build_name b))
             in fst after = (case cancelled of
                               None \<Rightarrow> Inr ()
                             | Some cex \<Rightarrow> (if cex = OsbsException then Inr () else Inl cex))
              \<and> (\<exists>bi. worker_builds (fst (snd after)) = worker_builds self @ [bi]
                     \<and> build bi \<noteq> None
                     \<and> wb_platform bi = platform cluster_info
                     \<and> monitor_exception bi = monitor_exc))))"
proof -
  let ?K = "get_worker_build_kwargs self (release self) (platform cluster_info)
              (koji_upload_dir self) (fs_task_id self) ++ workflow_override_kwargs self"
  let ?created = "create_worker_build_at e (tick w) (osbs cluster_info) ?K"
  let ?after = "do_worker_build e cluster_info (self, w)"
  have osbs_case: "?created = Inl OsbsException \<Longrightarrow> fst ?after = Inl OsbsException \<and> fst (snd ?after) = self"
    using do_worker_build_osbs [of e w cluster_info self] by simp
  have other_case: "\<And>ex. ?created = Inl ex \<Longrightarrow> ex \<noteq> OsbsException \<Longrightarrow>
      fst ?after = Inr () \<and> worker_builds (fst (snd ?after))
         = worker_builds self @ [WorkerBuildInfo_init None cluster_info]"
    using do_worker_build_other [of e w cluster_info self] by simp
  have created_case: "\<And>b. ?created = Inr b \<Longrightarrow> fst ?after \<noteq> Inl OsbsException"
    using do_worker_build_created [of e w cluster_info self] by fastforce
  have only_if: "fst ?after = Inl OsbsException \<Longrightarrow> ?created = Inl OsbsException"
  proof (cases ?created)
    case (Inl ex)
    assume "fst ?after = Inl OsbsException"
    then show ?thesis using other_case [OF Inl] Inl by (cases "ex = OsbsException") auto
  next
    case (Inr b)
    assume "fst ?after = Inl OsbsException"
    then show ?thesis using created_case [OF Inr] by simp
  qed
  have a: "fst ?after = Inl OsbsException \<longleftrightarrow> ?created = Inl OsbsException"
    using osbs_case only_if by blast
  have b: "?created = Inl OsbsException \<longrightarrow> fst (snd ?after) = self"
    using osbs_case by blast
  have n: "build (WorkerBuildInfo_init None cluster_info) = None"
    "wb_platform (WorkerBuildInfo_init None cluster_info) = platform cluster_info"
    by (simp_all add: WorkerBuildInfo_init_def)
  have c: "\<forall>ex. ?created = Inl ex \<and> ex \<noteq> OsbsException \<longrightarrow>
            fst ?after = Inr ()
          \<and> worker_builds (fst (snd ?after))
              = worker_builds self @ [WorkerBuildInfo_init None cluster_info]
          \<and> build (WorkerBuildInfo_init None cluster_info) = None
          \<and> wb_platform (WorkerBuildInfo_init None cluster_info) = platform cluster_info"
    using other_case n by blast
  have d: "\<forall>b. ?created = Inr b \<longrightarrow>
            (let watched = watch_logs_at e (tick w + 1) (build_name b);
                 waited = wait_for_build_to_finish_at e (tick w + 2) (build_name b);
                 monitor_exc = (case watched of
                                  Some ex \<Rightarrow> Some ex
                                | None \<Rightarrow> (case waited of Inl ex \<Rightarrow> Some ex | Inr b' \<Rightarrow> None));
                 cancelled = (if monitor_exc = None \<or> is_finished b then None
                              else cancel_build_at e
                                     (if watched = None then tick w + 3 else tick w + 2)
                                     (build_name b))
             in fst ?after = (case cancelled of
                               None \<Rightarrow> Inr ()
                             | Some cex \<Rightarrow> (if cex = OsbsException then Inr () else Inl cex))
              \<and> (\<exists>bi. worker_builds (fst (snd ?after)) = worker_builds self @ [bi]
                     \<and> build bi \<noteq> None
                     \<and> wb_platform bi = platform cluster_info
                     \<and> monitor_exception bi = monitor_exc))"
  proof (intro allI impI)
    fix b
    assume cr: "?created = Inr b"
    let ?watched = "watch_logs_at e (tick w + 1) (build_name b)"
    let ?waited = "wait_for_build_to_finish_at e (tick w + 2) (build_name b)"
    let ?monitor_exc = "case ?watched of
                          Some ex \<Rightarrow> Some ex
                        | None \<Rightarrow> (case ?waited of Inl ex \<Rightarrow> Some ex | Inr b' \<Rightarrow> None)"
    let ?cancelled = "if ?monitor_exc = None \<or> is_finished b then None
                      else cancel_build_at e
                             (if ?watched = None then tick w + 3 else tick w + 2)
                             (build_name b)"
    have outcome: "fst ?after = (case ?cancelled of
                               None \<Rightarrow> Inr ()
                             | Some cex \<Rightarrow> (if cex = OsbsException then Inr () else Inl cex))"
      using cr
      by (simp add: do_worker_build_def monitor_failed_def cancel_build_def Let_def step_def
          wb_name_def WorkerBuildInfo_init_def numeral_3_eq_3 numeral_2_eq_2
          split: option.splits sum.splits)
    have info: "\<exists>bi. worker_builds (fst (snd ?after)) = worker_builds self @ [bi]
                     \<and> build bi \<noteq> None
                     \<and> wb_platform bi = platform cluster_info
                     \<and> monitor_exception bi = ?monitor_exc"
      using cr
      by (simp add: do_worker_build_def monitor_failed_def cancel_build_def Let_def step_def
          wb_name_def WorkerBuildInfo_init_def set_last_snoc numeral_3_eq_3 numeral_2_eq_2
          split: option.splits sum.splits)
    show "let watched = ?watched; waited = ?waited;
              monitor_exc = (case watched of
                                  Some ex \<Rightarrow> Some ex
                                | None \<Rightarrow> (case waited of Inl ex \<Rightarrow> Some ex | Inr b' \<Rightarrow> None));
              cancelled = (if monitor_exc = None \<or> is_finished b then None
                              else cancel_build_at e
                                     (if watched = None then tick w + 3 else tick w + 2)
                                     (build_name b))
          in fst ?after = (case cancelled of
                               None \<Rightarrow> Inr ()
                             | Some cex \<Rightarrow> (if cex = OsbsException then Inr () else Inl cex))
              \<and> (\<exists>bi. worker_builds (fst (snd ?after)) = worker_builds self @ [bi]
                     \<and> build bi \<noteq> None
                     \<and> wb_platform bi = platform cluster_info
                     \<and> monitor_exception bi = monitor_exc)"
      unfolding Let_def by (intro conjI) (rule outcome info)+
  qed
  show ?thesis
    unfolding Let_def by (intro conjI) (rule a b c d [unfolded Let_def])+
qed

theorem do_worker_build_exceptions_witness:
  "create_worker_build_at example_env (tick world0) (osbs info_b)
       (get_worker_build_kwargs example_self (release example_self) (platform info_b)
          (koji_upload_dir example_self) (fs_task_id example_self)
        ++ workflow_override_kwargs example_self) = Inl OsbsException
   \<and> fst (do_worker_build example_env info_b (example_self, world0)) = Inl OsbsException
   \<and> fst (snd (do_worker_build example_env info_b (example_self, world0))) = example_self
   \<and> create_worker_build_at example_env (tick world0) (osbs info_a)
       (get_worker_build_kwargs example_self (release example_self) (platform info_a)
          (koji_upload_dir example_self) (fs_task_id example_self)
        ++ workflow_override_kwargs example_self) = Inl (OtherException ''boom'')
   \<and> OtherException ''boom'' \<noteq> OsbsException
   \<and> fst (do_worker_build example_env info_a (example_self, world0)) = Inr ()
   \<and> worker_builds (fst (snd (do_worker_build example_env info_a (example_self, world0))))
       = worker_builds example_self @ [WorkerBuildInfo_init None info_a]
   \<and> create_worker_build_at example_env_logs_fail (tick world0) (osbs info_a)
       (get_worker_build_kwargs example_self (release example_self) (platform info_a)
          (koji_upload_dir example_self) (fs_task_id example_self)
        ++ workflow_override_kwargs example_self)
       = Inr \<lparr>build_name = ''build-1'', is_finished = False\<rparr>
   \<and> watch_logs_at example_env_logs_fail (tick world0 + 1) ''build-1''
       = Some (OtherException ''logs'')
   \<and> cancel_build_at example_env_logs_fail (tick world0 + 2) ''build-1'' = Some OsbsException
   \<and> fst (do_worker_build example_env_logs_fail info_a (example_self, world0)) = Inr ()
   \<and> map monitor_exception
        (worker_builds (fst (snd (do_worker_build example_env_logs_fail info_a
                                    (example_self, world0)))))
       = [Some (OtherException ''logs'')]
   \<and> cancel_build_at example_env_cancel_fails (tick world0 + 2) ''build-1''
       = Some (OtherException ''cancel'')
   \<and> fst (do_worker_build example_env_cancel_fails info_a (example_self, world0))
       = Inl (OtherException ''cancel'')
   \<and> watch_logs_at example_env_ok (tick world0 + 1) ''build-1'' = None
   \<and> wait_for_build_to_finish_at example_env_ok (tick world0 + 2) ''build-1''
       = Inr \<lparr>build_name = ''build-1'', is_finished = True\<rparr>
   \<and> fst (do_worker_build example_env_ok info_a (example_self, world0)) = Inr ()
   \<and> map monitor_exception
        (worker_builds (fst (snd (do_worker_build example_env_ok info_a
                                    (example_self, world0)))))
       = [None]"
proof -
  have empty: "worker_builds example_self = []"
    by (simp add: example_self_def OrchestrateBuildPlugin_init_def)
  note envs = example_env_def example_env_ok_def example_env_logs_fail_def
    example_env_cancel_fails_def info_a_def info_b_def
  show ?thesis
    using do_worker_build_exceptions [of example_self info_b example_env world0]
          do_worker_build_exceptions [of example_self info_a example_env world0]
          do_worker_build_exceptions [of example_self info_a example_env_logs_fail world0]
          do_worker_build_exceptions [of example_self info_a example_env_cancel_fails world0]
          do_worker_build_exceptions [of example_self info_a example_env_ok world0]
    by (auto simp: Let_def envs empty)
qed




section \<open>One build info for each platform\<close>

lemma do_worker_build_summary:
  assumes "do_worker_build e ci (self, w) = (r, self', w')"
  shows "create_calls w' = create_calls w @
           [(osbs ci,
             get_worker_build_kwargs self (release self) (platform ci) (koji_upload_dir self)
               (fs_task_id self) ++ workflow_override_kwargs self,
             create_worker_build_at e (tick w) (osbs ci)
               (get_worker_build_kwargs self (release self) (platform ci) (koji_upload_dir self)
                  (fs_task_id self) ++ workflow_override_kwargs self))]
         \<and> tick w < tick w'
         \<and> ((r = Inl OsbsException \<and> self' = self
              \<and> create_worker_build_at e (tick w) (osbs ci)
                   (get_worker_build_kwargs self (release self) (platform ci) (koji_upload_dir self)
                      (fs_task_id self) ++ workflow_override_kwargs self) = Inl OsbsException)
            \<or> (r \<noteq> Inl OsbsException
                \<and> (\<exists>bi. self' = self\<lparr>worker_builds := worker_builds self @ [bi]\<rparr>
                      \<and> (build bi \<noteq> None \<longrightarrow>
                           (\<exists>b. create_worker_build_at e (tick w) (osbs ci)
                               (get_worker_build_kwargs self (release self) (platform ci)
                                  (koji_upload_dir self) (fs_task_id self)
                                ++ workflow_override_kwargs self) = Inr b)))))"
proof -
  let ?K = "get_worker_build_kwargs self (release self) (platform ci) (koji_upload_dir self)
               (fs_task_id self) ++ workflow_override_kwargs self"
  show ?thesis
  proof (cases "create_worker_build_at e (tick w) (osbs ci) ?K")
    case (Inl ex)
    show ?thesis
    proof (cases "ex = OsbsException")
      case True
      then show ?thesis
        using do_worker_build_osbs [of e w ci self] Inl assms by (auto simp: step_def)
    next
      case False
      then show ?thesis
        using do_worker_build_other [OF Inl False] Inl assms
        by (auto simp: step_def WorkerBuildInfo_init_def)
    qed
  next
    case (Inr b)
    from do_worker_build_created [OF this] obtain r0 bi w0 where
      h: "do_worker_build e ci (self, w) = (r0, self\<lparr>worker_builds := worker_builds self @ [bi]\<rparr>, w0)"
         "r0 \<noteq> Inl OsbsException"
         "create_calls w0 = create_calls w @ [(osbs ci, ?K, Inr b)]" "tick w < tick w0"
      by blast
    show ?thesis using h assms Inr by auto
  qed
qed

lemma probe_candidates_world:
  "probe_candidates e self pf cs (contexts, w, possible) = (r, contexts', w')
   \<Longrightarrow> create_calls w' = create_calls w \<and> tick w \<le> tick w'"
proof (induction cs arbitrary: contexts w possible)
  case Nil
  then show ?case by simp
next
  case (Cons c cs)
  from Cons.prems show ?case
    by (auto split: option.splits if_splits sum.splits simp: step_def dest!: Cons.IH)
qed

lemma get_clusters_loop_world:
  "get_clusters_loop fuel e self pf candidates (contexts, w) = Some (r, contexts', w')
   \<Longrightarrow> create_calls w' = create_calls w \<and> tick w \<le> tick w'"
proof (induction fuel arbitrary: candidates contexts w)
  case 0
  then show ?case by simp
next
  case (Suc fuel)
  show ?case
  proof (cases "candidates = []")
    case True
    then show ?thesis using Suc.prems by simp
  next
    case ne: False
    show ?thesis
    proof (cases "wait_for_any_cluster (now_at e (tick w)) contexts")
      case (Inl ex)
      then show ?thesis using Suc.prems ne by simp
    next
      case (Inr secs)
      obtain r1 c1 w1 where p: "probe_candidates e self pf (sort_key priority candidates)
                  (contexts, (step w)\<lparr>sleeps := sleeps w @ [secs]\<rparr>, []) = (r1, c1, w1)"
        by (metis prod_cases3)
      from probe_candidates_world [OF p]
      have w1: "create_calls w1 = create_calls w" "tick w \<le> tick w1" by (simp_all add: step_def)
      show ?thesis
      proof (cases r1)
        case (Inl ex)
        then show ?thesis using Suc.prems ne Inr p w1 by simp
      next
        case r1: (Inr possible)
        show ?thesis
        proof (cases "filter (\<lambda>c. \<not> ctx_failed c1 c) candidates \<noteq> [] \<and> possible = []")
          case True
          then have "get_clusters_loop fuel e self pf (filter (\<lambda>c. \<not> ctx_failed c1 c) candidates) (c1, w1)
                = Some (r, contexts', w')"
            using Suc.prems ne Inr p r1 by (simp add: Let_def)
          from Suc.IH [OF this] show ?thesis using w1 by simp
        next
          case False
          then show ?thesis using Suc.prems ne Inr p r1 w1 by (auto simp: Let_def)
        qed
      qed
    qed
  qed
qed

lemma get_clusters_world:
  "get_clusters fuel e self pf contexts all_clusters w = Some (r, contexts', w')
   \<Longrightarrow> create_calls w' = create_calls w \<and> tick w \<le> tick w'"
  using get_clusters_loop_world [of fuel e self pf all_clusters contexts w]
  by (auto simp: get_clusters_def split: option.splits sum.splits prod.splits)

lemma upload_dir_passed_kwargs:
  "upload_dir_passed self
     (client,
      get_worker_build_kwargs self (release self) pf (koji_upload_dir self) (fs_task_id self)
        ++ workflow_override_kwargs self,
      outcome)"
  by (simp add: upload_dir_passed_def map_add_def get_worker_build_kwargs_def Let_def
      split: option.splits)

lemma self_update_same: "\<exists>bs. self = self\<lparr>worker_builds := bs\<rparr>"
  by (rule exI [of _ "worker_builds self"]) simp

lemma start_on_clusters_summary:
  "start_on_clusters e infos (self, contexts, w) = (r, self', contexts', w') \<Longrightarrow>
     (\<exists>new. create_calls w' = create_calls w @ new
        \<and> (\<forall>c \<in> set new. upload_dir_passed self c)
        \<and> tick w \<le> tick w'
        \<and> ((r = Inr False \<and> self' = self)
           \<or> (r = Inr True
               \<and> (\<exists>bi. self' = self\<lparr>worker_builds := worker_builds self @ [bi]\<rparr>
                      \<and> (build bi \<noteq> None \<longrightarrow> (\<exists>c \<in> set new. created c))))
           \<or> (\<exists>ex. r = Inl ex \<and> (\<exists>bs. self' = self\<lparr>worker_builds := bs\<rparr>))))"
proof (induction infos arbitrary: contexts w)
  case Nil
  then show ?case by simp
next
  case (Cons ci rest)
  show ?case
  proof (cases "map_of contexts (name (cluster ci))")
    case None
    then have "r = Inl KeyError" "self' = self" "w' = w" using Cons.prems by simp_all
    then show ?thesis using self_update_same [of self] by simp
  next
    case (Some ctx)
    obtain r1 s1 w1 where d: "do_worker_build e ci (self, w) = (r1, s1, w1)"
      by (metis prod_cases3)
    let ?K = "get_worker_build_kwargs self (release self) (platform ci) (koji_upload_dir self)
               (fs_task_id self) ++ workflow_override_kwargs self"
    let ?call = "(osbs ci, ?K, create_worker_build_at e (tick w) (osbs ci) ?K)"
    from do_worker_build_summary [OF d]
    have calls: "create_calls w1 = create_calls w @ [?call]" and tk: "tick w < tick w1"
      and alt: "(r1 = Inl OsbsException \<and> s1 = self
                 \<and> create_worker_build_at e (tick w) (osbs ci) ?K = Inl OsbsException)
              \<or> (r1 \<noteq> Inl OsbsException
                  \<and> (\<exists>bi. s1 = self\<lparr>worker_builds := worker_builds self @ [bi]\<rparr>
                        \<and> (build bi \<noteq> None \<longrightarrow>
                             (\<exists>b. create_worker_build_at e (tick w) (osbs ci) ?K = Inr b))))"
      by blast+
    have q: "upload_dir_passed self ?call" by (rule upload_dir_passed_kwargs)
    from alt show ?thesis
    proof
      assume a: "r1 = Inl OsbsException \<and> s1 = self
                 \<and> create_worker_build_at e (tick w) (osbs ci) ?K = Inl OsbsException"
      then have rec: "start_on_clusters e rest
              (self,
               update_ctx (name (cluster ci))
                 (try_again_later (now_at e (tick w1)) (failure_retry_delay self)) contexts,
               step w1) = (r, self', contexts', w')"
        using Cons.prems Some d by simp
      from Cons.IH [OF rec] obtain new where
        n: "create_calls w' = create_calls (step w1) @ new"
           "\<forall>c \<in> set new. upload_dir_passed self c"
           "tick (step w1) \<le> tick w'"
           "(r = Inr False \<and> self' = self)
           \<or> (r = Inr True
               \<and> (\<exists>bi. self' = self\<lparr>worker_builds := worker_builds self @ [bi]\<rparr>
                      \<and> (build bi \<noteq> None \<longrightarrow> (\<exists>c \<in> set new. created c))))
           \<or> (\<exists>ex. r = Inl ex \<and> (\<exists>bs. self' = self\<lparr>worker_builds := bs\<rparr>))"
        by blast
      have 1: "create_calls w' = create_calls w @ (?call # new)"
        using n(1) calls by (simp add: step_def)
      have 2: "\<forall>c \<in> set (?call # new). upload_dir_passed self c" using n(2) q by simp
      have 3: "tick w \<le> tick w'" using n(3) tk by (simp add: step_def)
      have 4: "(r = Inr False \<and> self' = self)
           \<or> (r = Inr True
               \<and> (\<exists>bi. self' = self\<lparr>worker_builds := worker_builds self @ [bi]\<rparr>
                      \<and> (build bi \<noteq> None \<longrightarrow> (\<exists>c \<in> set (?call # new). created c))))
           \<or> (\<exists>ex. r = Inl ex \<and> (\<exists>bs. self' = self\<lparr>worker_builds := bs\<rparr>))"
        using n(4) by auto
      show ?thesis using 1 2 3 4 by blast
    next
      assume b: "r1 \<noteq> Inl OsbsException
                  \<and> (\<exists>bi. s1 = self\<lparr>worker_builds := worker_builds self @ [bi]\<rparr>
                        \<and> (build bi \<noteq> None \<longrightarrow>
                             (\<exists>b. create_worker_build_at e (tick w) (osbs ci) ?K = Inr b)))"
      then obtain bi where bi: "s1 = self\<lparr>worker_builds := worker_builds self @ [bi]\<rparr>"
        "build bi \<noteq> None \<longrightarrow> created ?call"
        by (auto simp: created_def)
      have res: "(r, self', contexts', w') =
                 (case r1 of Inr u \<Rightarrow> (Inr True, s1, contexts, w1)
                           | Inl ex \<Rightarrow> (Inl ex, s1, contexts, w1))"
        using Cons.prems Some d b by (auto split: sum.splits)
      have 1: "create_calls w' = create_calls w @ [?call]"
        using res calls by (auto split: sum.splits)
      have 2: "\<forall>c \<in> set [?call]. upload_dir_passed self c" using q by simp
      have 3: "tick w \<le> tick w'" using res tk by (auto split: sum.splits)
      have 4: "(r = Inr False \<and> self' = self)
           \<or> (r = Inr True
               \<and> (\<exists>bi. self' = self\<lparr>worker_builds := worker_builds self @ [bi]\<rparr>
                      \<and> (build bi \<noteq> None \<longrightarrow> (\<exists>c \<in> set [?call]. created c))))
           \<or> (\<exists>ex. r = Inl ex \<and> (\<exists>bs. self' = self\<lparr>worker_builds := bs\<rparr>))"
        using res bi by (cases r1) auto
      show ?thesis using 1 2 3 4 by blast
    qed
  qed
qed

lemma select_loop_summary:
  "select_loop fuel e pf clusters (self, contexts, w) = Some (r, self', w') \<Longrightarrow>
     (\<exists>new. create_calls w' = create_calls w @ new
        \<and> (\<forall>c \<in> set new. upload_dir_passed self c)
        \<and> (\<exists>bs. self' = self\<lparr>worker_builds := bs\<rparr>)
        \<and> (r = Inr () \<longrightarrow>
              (\<exists>bi. worker_builds self' = worker_builds self @ [bi]
                  \<and> (build bi \<noteq> None \<longrightarrow> (\<exists>c \<in> set new. created c)))))"
proof (induction fuel arbitrary: contexts w)
  case 0
  then show ?case by simp
next
  case (Suc fuel)
  show ?case
  proof (cases "get_clusters fuel e self pf contexts clusters w")
    case None
    then show ?thesis using Suc.prems by simp
  next
    case (Some g)
    obtain gr c1 w1 where g: "g = (gr, c1, w1)" by (metis prod_cases3)
    from get_clusters_world [of fuel e self pf contexts clusters w gr c1 w1] Some g
    have cw: "create_calls w1 = create_calls w" by simp
    show ?thesis
    proof (cases gr)
      case (Inl ex)
      show ?thesis
      proof (cases "ex = AllClustersFailedException")
        case True
        then have "r = Inr ()"
          "self' = self\<lparr>worker_builds := worker_builds self @ [sentinel_build_info pf ex]\<rparr>"
          "w' = w1"
          using Suc.prems Some g Inl by simp_all
        then show ?thesis using cw by (auto simp: sentinel_build_info_def)
      next
        case False
        then have "r = Inl ex" "self' = self" "w' = w1"
          using Suc.prems Some g Inl by simp_all
        then show ?thesis using cw self_update_same [of self] by simp
      qed
    next
      case (Inr possible)
      obtain sr s2 c2 w2 where st: "start_on_clusters e possible (self, c1, w1) = (sr, s2, c2, w2)"
        by (metis prod_cases4)
      from start_on_clusters_summary [OF st] obtain new where
        n: "create_calls w2 = create_calls w1 @ new"
           "\<forall>c \<in> set new. upload_dir_passed self c"
           "(sr = Inr False \<and> s2 = self)
           \<or> (sr = Inr True
               \<and> (\<exists>bi. s2 = self\<lparr>worker_builds := worker_builds self @ [bi]\<rparr>
                      \<and> (build bi \<noteq> None \<longrightarrow> (\<exists>c \<in> set new. created c))))
           \<or> (\<exists>ex. sr = Inl ex \<and> (\<exists>bs. s2 = self\<lparr>worker_builds := bs\<rparr>))"
        by blast
      from n(3) show ?thesis
      proof (elim disjE conjE exE)
        assume a: "sr = Inr False" "s2 = self"
        then have rec: "select_loop fuel e pf clusters (self, c2, w2) = Some (r, self', w')"
          using Suc.prems Some g Inr st by simp
        from Suc.IH [OF rec] obtain new2 where
          m: "create_calls w' = create_calls w2 @ new2"
             "\<forall>c \<in> set new2. upload_dir_passed self c"
             "\<exists>bs. self' = self\<lparr>worker_builds := bs\<rparr>"
             "r = Inr () \<longrightarrow>
              (\<exists>bi. worker_builds self' = worker_builds self @ [bi]
                  \<and> (build bi \<noteq> None \<longrightarrow> (\<exists>c \<in> set new2. created c)))"
          by blast
        have 1: "create_calls w' = create_calls w @ (new @ new2)" using m(1) n(1) cw by simp
        have 2: "\<forall>c \<in> set (new @ new2). upload_dir_passed self c" using m(2) n(2) by auto
        have 4: "r = Inr () \<longrightarrow>
              (\<exists>bi. worker_builds self' = worker_builds self @ [bi]
                  \<and> (build bi \<noteq> None \<longrightarrow> (\<exists>c \<in> set (new @ new2). created c)))"
          using m(4) by auto
        show ?thesis using 1 2 m(3) 4 by blast
      next
        fix bi
        assume a: "sr = Inr True" "s2 = self\<lparr>worker_builds := worker_builds self @ [bi]\<rparr>"
          "build bi \<noteq> None \<longrightarrow> (\<exists>c \<in> set new. created c)"
        then have "r = Inr ()" "self' = s2" "w' = w2"
          using Suc.prems Some g Inr st by simp_all
        then show ?thesis using a n(1,2) cw by auto
      next
        fix ex bs
        assume a: "sr = Inl ex" "s2 = self\<lparr>worker_builds := bs\<rparr>"
        then have "r = Inl ex" "self' = s2" "w' = w2"
          using Suc.prems Some g Inr st by simp_all
        then show ?thesis using a n(1,2) cw by auto
      qed
    qed
  qed
qed


section \<open>The run for a platform ends\<close>

lemma failed_iff_remaining: "failed ctx \<longleftrightarrow> remaining ctx = 0"
  by (auto simp: failed_def remaining_def)

lemma remaining_try_again_later_le:
  "remaining (try_again_later now d ctx) \<le> remaining ctx"
  by (auto simp: try_again_later_def remaining_def)

lemma remaining_try_again_later_less:
  "\<not> failed ctx \<Longrightarrow> remaining (try_again_later now d ctx) < remaining ctx"
  by (auto simp: try_again_later_def remaining_def failed_def)

lemma map_fst_update_ctx: "map fst (update_ctx n f contexts) = map fst contexts"
  by (induction contexts) (auto simp: update_ctx_def)

lemma map_of_update_ctx:
  "map_of (update_ctx n f contexts) k
   = (if k = n then map_option f (map_of contexts n) else map_of contexts k)"
  by (induction contexts) (auto simp: update_ctx_def)

lemma remaining_total_update_le:
  "remaining_total (update_ctx n (try_again_later now d) contexts) \<le> remaining_total contexts"
proof (induction contexts)
  case Nil
  then show ?case by (simp add: update_ctx_def remaining_total_def)
next
  case (Cons a contexts)
  obtain k ctx where a: "a = (k, ctx)" by (cases a)
  have "remaining (try_again_later now d ctx) \<le> remaining ctx"
    by (rule remaining_try_again_later_le)
  then show ?case using Cons a by (simp add: update_ctx_def remaining_total_def)
qed

lemma remaining_total_update_less:
  "map_of contexts n = Some ctx \<Longrightarrow> \<not> failed ctx
   \<Longrightarrow> remaining_total (update_ctx n (try_again_later now d) contexts) < remaining_total contexts"
proof (induction contexts)
  case Nil
  then show ?case by simp
next
  case (Cons a contexts)
  obtain k c where a: "a = (k, c)" by (cases a)
  show ?case
  proof (cases "k = n")
    case True
    then have "c = ctx" using Cons.prems a by simp
    then have "remaining (try_again_later now d c) < remaining c"
      using Cons.prems(2) remaining_try_again_later_less by blast
    moreover have "remaining_total (update_ctx n (try_again_later now d) contexts)
                   \<le> remaining_total contexts"
      by (rule remaining_total_update_le)
    ultimately show ?thesis using a True
      by (simp add: update_ctx_def remaining_total_def)
  next
    case False
    then have "map_of contexts n = Some ctx" using Cons.prems a by simp
    from Cons.IH [OF this Cons.prems(2)] show ?thesis using a False
      by (simp add: update_ctx_def remaining_total_def)
  qed
qed

lemma ctx_failed_update:
  "ctx_failed contexts c \<Longrightarrow> ctx_failed (update_ctx n (try_again_later now d) contexts) c"
  by (auto simp: ctx_failed_def map_of_update_ctx failed_try_again_later split: option.splits)

text \<open>What one pass over the candidates does to the contexts.\<close>

lemma probe_candidates_contexts:
  "probe_candidates e self pf cs (contexts, w, possible) = (r, contexts', w')
   \<Longrightarrow> remaining_total contexts' \<le> remaining_total contexts
     \<and> map fst contexts' = map fst contexts
     \<and> (ctx_failed contexts c \<longrightarrow> ctx_failed contexts' c)"
proof (induction cs arbitrary: contexts w possible)
  case Nil
  then show ?case by simp
next
  case (Cons c0 cs)
  from Cons.prems show ?case
    by (auto split: option.splits if_splits sum.splits
        dest!: Cons.IH
        simp: map_fst_update_ctx ctx_failed_update
        intro: order_trans [OF _ remaining_total_update_le])
qed

lemma get_cluster_info_cluster:
  "get_cluster_info e t c pf = Inr info \<Longrightarrow> cluster info = c"
  by (auto simp: get_cluster_info_def split: sum.splits if_splits)

lemma probe_candidates_possible:
  "probe_candidates e self pf cs (contexts, w, possible) = (Inr possible', contexts', w')
   \<Longrightarrow> \<exists>new. possible' = possible @ new
         \<and> (remaining_total contexts' < remaining_total contexts
            \<or> (contexts' = contexts \<and> (\<forall>ci \<in> set new. live_ctx contexts ci)))"
proof (induction cs arbitrary: contexts w possible)
  case Nil
  then show ?case by simp
next
  case (Cons c0 cs)
  show ?case
  proof (cases "map_of contexts (name c0)")
    case None
    then show ?thesis using Cons.prems by simp
  next
    case (Some ctx)
    show ?thesis
    proof (cases "in_retry_wait (now_at e (tick w)) ctx \<or> failed ctx")
      case True
      then have "probe_candidates e self pf cs (contexts, step w, possible)
                 = (Inr possible', contexts', w')"
        using Cons.prems Some by (auto split: if_splits)
      from Cons.IH [OF this] show ?thesis .
    next
      case live: False
      show ?thesis
      proof (cases "get_cluster_info e (tick (step w)) c0 pf")
        case (Inr info)
        then have rec: "probe_candidates e self pf cs (contexts, step (step w), possible @ [info])
                   = (Inr possible', contexts', w')"
          using Cons.prems Some live by simp
        from Cons.IH [OF rec] obtain new where
          n: "possible' = (possible @ [info]) @ new"
             "remaining_total contexts' < remaining_total contexts
              \<or> (contexts' = contexts \<and> (\<forall>ci \<in> set new. live_ctx contexts ci))"
          by blast
        have "live_ctx contexts info"
          using get_cluster_info_cluster [OF Inr] Some live by (simp add: live_ctx_def)
        then have "remaining_total contexts' < remaining_total contexts
              \<or> (contexts' = contexts \<and> (\<forall>ci \<in> set (info # new). live_ctx contexts ci))"
          using n(2) by auto
        moreover have "possible' = possible @ (info # new)" using n(1) by simp
        ultimately show ?thesis by blast
      next
        case (Inl ex)
        show ?thesis
        proof (cases "ex = OsbsException")
          case True
          let ?c1 = "update_ctx (name c0)
                          (try_again_later (now_at e (tick (step (step w))))
                             (find_cluster_retry_delay self)) contexts"
          have rec: "probe_candidates e self pf cs (?c1, step (step (step w)), possible)
                     = (Inr possible', contexts', w')"
            using Cons.prems Some live Inl True by simp
          have "remaining_total contexts' \<le> remaining_total ?c1"
            using probe_candidates_contexts [OF rec] by blast
          moreover have "remaining_total ?c1 < remaining_total contexts"
            using remaining_total_update_less [OF Some] live by blast
          moreover obtain new where "possible' = possible @ new"
            using Cons.IH [OF rec] by blast
          ultimately show ?thesis by auto
        next
          case False
          then show ?thesis using Cons.prems Some live Inl by simp
        qed
      qed
    qed
  qed
qed

lemma clock_passes_settled:
  assumes "clock_passes e"
  shows "\<exists>K. settled e K contexts"
proof (induction contexts)
  case Nil
  then show ?case by (simp add: settled_def)
next
  case (Cons a contexts)
  then obtain K1 where K1: "settled e K1 contexts" by blast
  obtain K2 where K2: "\<forall>k \<ge> K2. retry_at (snd a) \<le> now_at e k"
    using assms unfolding clock_passes_def by blast
  have "settled e (max K1 K2) (a # contexts)"
    using K1 K2 by (auto simp: settled_def)
  then show ?case by blast
qed

lemma probe_candidates_settled:
  assumes "settled e K contexts" "K \<le> tick w" "c \<in> set cs" "\<not> ctx_failed contexts c"
    and "probe_candidates e self pf cs (contexts, w, possible) = (r, contexts', w')"
  shows "(\<exists>ex. r = Inl ex) \<or> (\<exists>p. r = Inr p \<and> p \<noteq> [])
         \<or> remaining_total contexts' < remaining_total contexts"
  using assms(2-5)
proof (induction cs arbitrary: w possible)
  case Nil
  then show ?case by simp
next
  case (Cons c0 cs)
  show ?case
  proof (cases "map_of contexts (name c0)")
    case None
    then have "r = Inl KeyError" using Cons.prems(4) by simp
    then show ?thesis by simp
  next
    case (Some ctx)
    have "ctx \<in> snd ` set contexts" using map_of_SomeD [OF Some] by force
    then have "retry_at ctx \<le> now_at e (tick w)"
      using assms(1) Cons.prems(1) unfolding settled_def by blast
    then have nowait: "\<not> in_retry_wait (now_at e (tick w)) ctx" by (simp add: in_retry_wait_def)
    show ?thesis
    proof (cases "failed ctx")
      case True
      then have "c \<noteq> c0" using Cons.prems(3) Some by (auto simp: ctx_failed_def)
      then have mem: "c \<in> set cs" using Cons.prems(2) by simp
      have rec: "probe_candidates e self pf cs (contexts, step w, possible) = (r, contexts', w')"
        using Cons.prems(4) Some True nowait by simp
      have "K \<le> tick (step w)" using Cons.prems(1) by (simp add: step_def)
      from Cons.IH [OF this mem Cons.prems(3) rec] show ?thesis .
    next
      case live: False
      show ?thesis
      proof (cases "get_cluster_info e (tick (step w)) c0 pf")
        case (Inr info)
        then have rec: "probe_candidates e self pf cs (contexts, step (step w), possible @ [info])
                   = (r, contexts', w')"
          using Cons.prems(4) Some live nowait by simp
        show ?thesis
        proof (cases r)
          case (Inl ex)
          then show ?thesis by simp
        next
          case r: (Inr p)
          from probe_candidates_possible [OF rec [unfolded r]]
          obtain new where "p = (possible @ [info]) @ new" by blast
          then show ?thesis using r by simp
        qed
      next
        case (Inl ex)
        show ?thesis
        proof (cases "ex = OsbsException")
          case True
          let ?c1 = "update_ctx (name c0)
                          (try_again_later (now_at e (tick (step (step w))))
                             (find_cluster_retry_delay self)) contexts"
          have rec: "probe_candidates e self pf cs (?c1, step (step (step w)), possible)
                     = (r, contexts', w')"
            using Cons.prems(4) Some live nowait Inl True by simp
          have "remaining_total contexts' \<le> remaining_total ?c1"
            using probe_candidates_contexts [OF rec] by blast
          moreover have "remaining_total ?c1 < remaining_total contexts"
            using remaining_total_update_less [OF Some] live by blast
          ultimately show ?thesis by simp
        next
          case False
          then show ?thesis using Cons.prems(4) Some live nowait Inl by auto
        qed
      qed
    qed
  qed
qed

lemma get_clusters_loop_terminates:
  assumes "clock_passes e"
  shows "\<exists>fuel. get_clusters_loop fuel e self pf candidates (contexts, w) \<noteq> None"
proof (induction "remaining_total contexts" arbitrary: contexts w candidates rule: less_induct)
  case less
  obtain K where K: "settled e K contexts"
    using clock_passes_settled [OF assms] by blast
  show ?case
  proof (induction "K - tick w" arbitrary: w candidates rule: less_induct)
    case inner: less
    show ?case
    proof (cases "candidates = []")
      case True
      then have "get_clusters_loop (Suc 0) e self pf candidates (contexts, w) \<noteq> None" by simp
      then show ?thesis by blast
    next
      case ne: False
      show ?thesis
      proof (cases "wait_for_any_cluster (now_at e (tick w)) contexts")
        case (Inl ex)
        then have "get_clusters_loop (Suc 0) e self pf candidates (contexts, w) \<noteq> None"
          using ne by simp
        then show ?thesis by blast
      next
        case (Inr secs)
        let ?w0 = "(step w)\<lparr>sleeps := sleeps w @ [secs]\<rparr>"
        obtain r1 c1 w1 where p: "probe_candidates e self pf (sort_key priority candidates)
                  (contexts, ?w0, []) = (r1, c1, w1)"
          by (metis prod_cases3)
        show ?thesis
        proof (cases r1)
          case (Inl ex)
          then have "get_clusters_loop (Suc 0) e self pf candidates (contexts, w) \<noteq> None"
            using ne Inr p by simp
          then show ?thesis by blast
        next
          case r1: (Inr possible)
          let ?cand = "filter (\<lambda>c. \<not> ctx_failed c1 c) candidates"
          show ?thesis
          proof (cases "?cand \<noteq> [] \<and> possible = []")
            case False
            then have "get_clusters_loop (Suc 0) e self pf candidates (contexts, w) \<noteq> None"
              using ne Inr p r1 by (auto simp: Let_def)
            then show ?thesis by blast
          next
            case again: True
            from probe_candidates_possible [OF p [unfolded r1]]
            have alt: "remaining_total c1 < remaining_total contexts \<or> c1 = contexts" by blast
            have "\<exists>f. get_clusters_loop f e self pf ?cand (c1, w1) \<noteq> None"
            proof (cases "remaining_total c1 < remaining_total contexts")
              case True
              from less.hyps [OF this] show ?thesis .
            next
              case False
              then have same: "c1 = contexts" using alt by blast
              have t0: "tick ?w0 = Suc (tick w)" by (simp add: step_def)
              have t1: "tick ?w0 \<le> tick w1" using probe_candidates_world [OF p] by blast
              have early: "tick w < K"
              proof (rule ccontr)
                assume "\<not> tick w < K"
                then have late: "K \<le> tick ?w0" using t0 by simp
                obtain c where c: "c \<in> set ?cand" using again by (cases ?cand) auto
                then have mem: "c \<in> set (sort_key priority candidates)"
                  and live: "\<not> ctx_failed contexts c"
                  using same by auto
                from probe_candidates_settled [OF K late mem live p]
                show False using r1 again False same by auto
              qed
              then have "K - tick w1 < K - tick w" using t0 t1 by linarith
              from inner.hyps [OF this] show ?thesis using same by blast
            qed
            then obtain f where "get_clusters_loop f e self pf ?cand (c1, w1) \<noteq> None" by blast
            then have "get_clusters_loop (Suc f) e self pf candidates (contexts, w) \<noteq> None"
              using ne Inr p r1 again by (simp add: Let_def)
            then show ?thesis by blast
          qed
        qed
      qed
    qed
  qed
qed

lemma get_clusters_loop_Suc_cases:
  assumes "get_clusters_loop (Suc fuel) e self pf candidates (contexts, w) = Some res"
  obtains (empty) "candidates = []" "res = (Inr [], contexts, w)"
  | (raised) ex where "candidates \<noteq> []"
      "wait_for_any_cluster (now_at e (tick w)) contexts = Inl ex" "res = (Inl ex, contexts, w)"
  | (probe_error) secs ex c1 w1 where "candidates \<noteq> []"
      "wait_for_any_cluster (now_at e (tick w)) contexts = Inr secs"
      "probe_candidates e self pf (sort_key priority candidates)
         (contexts, (step w)\<lparr>sleeps := sleeps w @ [secs]\<rparr>, []) = (Inl ex, c1, w1)"
      "res = (Inl ex, c1, w1)"
  | (finished) secs possible c1 w1 where "candidates \<noteq> []"
      "wait_for_any_cluster (now_at e (tick w)) contexts = Inr secs"
      "probe_candidates e self pf (sort_key priority candidates)
         (contexts, (step w)\<lparr>sleeps := sleeps w @ [secs]\<rparr>, []) = (Inr possible, c1, w1)"
      "filter (\<lambda>c. \<not> ctx_failed c1 c) candidates = [] \<or> possible \<noteq> []"
      "res = (Inr possible, c1, w1)"
  | (again) secs c1 w1 where "candidates \<noteq> []"
      "wait_for_any_cluster (now_at e (tick w)) contexts = Inr secs"
      "probe_candidates e self pf (sort_key priority candidates)
         (contexts, (step w)\<lparr>sleeps := sleeps w @ [secs]\<rparr>, []) = (Inr [], c1, w1)"
      "filter (\<lambda>c. \<not> ctx_failed c1 c) candidates \<noteq> []"
      "get_clusters_loop fuel e self pf (filter (\<lambda>c. \<not> ctx_failed c1 c) candidates) (c1, w1)
         = Some res"
proof (cases "candidates = []")
  case True
  then show thesis using assms empty by simp
next
  case ne: False
  show thesis
  proof (cases "wait_for_any_cluster (now_at e (tick w)) contexts")
    case (Inl ex)
    then show thesis using assms ne raised by simp
  next
    case (Inr secs)
    obtain r1 c1 w1 where p: "probe_candidates e self pf (sort_key priority candidates)
         (contexts, (step w)\<lparr>sleeps := sleeps w @ [secs]\<rparr>, []) = (r1, c1, w1)"
      by (metis prod_cases3)
    show thesis
    proof (cases r1)
      case (Inl ex)
      then have "res = (Inl ex, c1, w1)" using assms ne Inr p by simp
      moreover have "probe_candidates e self pf (sort_key priority candidates)
         (contexts, (step w)\<lparr>sleeps := sleeps w @ [secs]\<rparr>, []) = (Inl ex, c1, w1)"
        using p Inl by simp
      ultimately show thesis using probe_error [OF ne Inr] by blast
    next
      case r1: (Inr possible)
      have p': "probe_candidates e self pf (sort_key priority candidates)
         (contexts, (step w)\<lparr>sleeps := sleeps w @ [secs]\<rparr>, []) = (Inr possible, c1, w1)"
        using p r1 by simp
      show thesis
      proof (cases "filter (\<lambda>c. \<not> ctx_failed c1 c) candidates \<noteq> [] \<and> possible = []")
        case True
        then have "get_clusters_loop fuel e self pf (filter (\<lambda>c. \<not> ctx_failed c1 c) candidates)
            (c1, w1) = Some res"
          using assms ne Inr p r1 by (simp add: Let_def)
        moreover have "probe_candidates e self pf (sort_key priority candidates)
           (contexts, (step w)\<lparr>sleeps := sleeps w @ [secs]\<rparr>, []) = (Inr [], c1, w1)"
          using p' True by simp
        ultimately show thesis using again [OF ne Inr] True by blast
      next
        case False
        then have "res = (Inr possible, c1, w1)" using assms ne Inr p r1 by (auto simp: Let_def)
        then show thesis using False finished [OF ne Inr p'] by blast
      qed
    qed
  qed
qed

lemma get_clusters_loop_contexts:
  "get_clusters_loop fuel e self pf candidates (contexts, w) = Some (r, contexts', w')
   \<Longrightarrow> remaining_total contexts' \<le> remaining_total contexts
     \<and> map fst contexts' = map fst contexts
     \<and> (ctx_failed contexts c \<longrightarrow> ctx_failed contexts' c)"
proof (induction fuel arbitrary: candidates contexts w)
  case 0
  then show ?case by simp
next
  case (Suc fuel)
  from Suc.prems show ?case
  proof (cases rule: get_clusters_loop_Suc_cases)
    case empty
    then show ?thesis by simp
  next
    case (raised ex)
    then show ?thesis by simp
  next
    case (probe_error secs ex c1 w1)
    then show ?thesis using probe_candidates_contexts [OF probe_error(3), of c] by simp
  next
    case (finished secs possible c1 w1)
    then show ?thesis using probe_candidates_contexts [OF finished(3), of c] by simp
  next
    case (again secs c1 w1)
    from Suc.IH [OF again(5)] probe_candidates_contexts [OF again(3), of c]
    show ?thesis by auto
  qed
qed

lemma get_clusters_loop_live:
  "get_clusters_loop fuel e self pf candidates (contexts, w) = Some (Inr possible, contexts', w')
   \<Longrightarrow> remaining_total contexts' < remaining_total contexts
     \<or> (\<forall>ci \<in> set possible. live_ctx contexts' ci)"
proof (induction fuel arbitrary: candidates contexts w)
  case 0
  then show ?case by simp
next
  case (Suc fuel)
  from Suc.prems show ?case
  proof (cases rule: get_clusters_loop_Suc_cases)
    case empty
    then show ?thesis by simp
  next
    case (raised ex)
    then show ?thesis by simp
  next
    case (probe_error secs ex c1 w1)
    then show ?thesis by simp
  next
    case (finished secs p c1 w1)
    then have eq: "p = possible" "c1 = contexts'" by simp_all
    from probe_candidates_possible [OF finished(3)] show ?thesis using eq by auto
  next
    case (again secs c1 w1)
    from Suc.IH [OF again(5)] probe_candidates_contexts [OF again(3)]
    show ?thesis by auto
  qed
qed

lemma get_clusters_loop_none_left:
  "get_clusters_loop fuel e self pf candidates (contexts, w) = Some (Inr [], contexts', w')
   \<Longrightarrow> \<forall>c \<in> set candidates. ctx_failed contexts' c"
proof (induction fuel arbitrary: candidates contexts w)
  case 0
  then show ?case by simp
next
  case (Suc fuel)
  from Suc.prems show ?case
  proof (cases rule: get_clusters_loop_Suc_cases)
    case empty
    then show ?thesis by simp
  next
    case (raised ex)
    then show ?thesis by simp
  next
    case (probe_error secs ex c1 w1)
    then show ?thesis by simp
  next
    case (finished secs p c1 w1)
    then have "filter (\<lambda>c. \<not> ctx_failed c1 c) candidates = []" "c1 = contexts'" by simp_all
    then show ?thesis by (auto simp: filter_empty_conv)
  next
    case (again secs c1 w1)
    have keep: "\<And>c. ctx_failed c1 c \<Longrightarrow> ctx_failed contexts' c"
      using get_clusters_loop_contexts [OF again(5)] by blast
    from Suc.IH [OF again(5)] keep show ?thesis by auto
  qed
qed

lemma get_clusters_loop_mono:
  "get_clusters_loop fuel e self pf candidates (contexts, w) = Some res \<Longrightarrow> fuel \<le> fuel'
   \<Longrightarrow> get_clusters_loop fuel' e self pf candidates (contexts, w) = Some res"
proof (induction fuel arbitrary: fuel' candidates contexts w)
  case 0
  then show ?case by simp
next
  case (Suc fuel)
  then obtain f' where f': "fuel' = Suc f'" "fuel \<le> f'" by (cases fuel') auto
  from Suc.prems(1) show ?case
  proof (cases rule: get_clusters_loop_Suc_cases)
    case empty
    then show ?thesis using f' by simp
  next
    case (raised ex)
    then show ?thesis using f' by simp
  next
    case (probe_error secs ex c1 w1)
    then show ?thesis using f' by simp
  next
    case (finished secs p c1 w1)
    then show ?thesis using f' by (auto simp: Let_def)
  next
    case (again secs c1 w1)
    from Suc.IH [OF again(5) f'(2)] again f' show ?thesis by (simp add: Let_def)
  qed
qed

lemma get_clusters_mono:
  "get_clusters fuel e self pf contexts all_clusters w = Some res \<Longrightarrow> fuel \<le> fuel'
   \<Longrightarrow> get_clusters fuel' e self pf contexts all_clusters w = Some res"
  using get_clusters_loop_mono [of fuel e self pf all_clusters contexts w _ fuel']
  by (auto simp: get_clusters_def split: option.splits)

lemma start_on_clusters_contexts:
  "start_on_clusters e infos (self, contexts, w) = (r, self', contexts', w')
   \<Longrightarrow> remaining_total contexts' \<le> remaining_total contexts
     \<and> map fst contexts' = map fst contexts
     \<and> (ctx_failed contexts c \<longrightarrow> ctx_failed contexts' c)"
proof (induction infos arbitrary: self contexts w)
  case Nil
  then show ?case by simp
next
  case (Cons ci rest)
  from Cons.prems show ?case
    by (auto split: option.splits if_splits sum.splits prod.splits
        dest!: Cons.IH
        simp: map_fst_update_ctx ctx_failed_update
        intro: order_trans [OF _ remaining_total_update_le])
qed

lemma start_on_clusters_progress:
  assumes "start_on_clusters e (ci # rest) (self, contexts, w) = (Inr False, self', contexts', w')"
    and "live_ctx contexts ci"
  shows "remaining_total contexts' < remaining_total contexts"
proof -
  obtain ctx where ctx: "map_of contexts (name (cluster ci)) = Some ctx" "\<not> failed ctx"
    using assms(2) by (auto simp: live_ctx_def split: option.splits)
  obtain r1 s1 w1 where d: "do_worker_build e ci (self, w) = (r1, s1, w1)"
    by (metis prod_cases3)
  let ?c1 = "update_ctx (name (cluster ci))
               (try_again_later (now_at e (tick w1)) (failure_retry_delay self)) contexts"
  have r1: "r1 = Inl OsbsException"
    using assms(1) ctx d by (auto split: sum.splits if_splits)
  then have rec: "start_on_clusters e rest (s1, ?c1, step w1) = (Inr False, self', contexts', w')"
    using assms(1) ctx d by simp
  have "remaining_total contexts' \<le> remaining_total ?c1"
    using start_on_clusters_contexts [OF rec] by blast
  moreover have "remaining_total ?c1 < remaining_total contexts"
    using remaining_total_update_less [OF ctx] by blast
  ultimately show ?thesis by simp
qed

lemma select_loop_mono:
  "select_loop fuel e pf clusters st = Some res \<Longrightarrow> fuel \<le> fuel'
   \<Longrightarrow> select_loop fuel' e pf clusters st = Some res"
proof (induction fuel arbitrary: fuel' st)
  case 0
  then show ?case by simp
next
  case (Suc fuel)
  obtain f' where f': "fuel' = Suc f'" "fuel \<le> f'" using Suc.prems(2) by (cases fuel') auto
  obtain self contexts w where st: "st = (self, contexts, w)" by (metis prod_cases3)
  show ?case
  proof (cases "get_clusters fuel e self pf contexts clusters w")
    case None
    then show ?thesis using Suc.prems(1) st by simp
  next
    case (Some g)
    from get_clusters_mono [OF Some f'(2)]
    have g': "get_clusters f' e self pf contexts clusters w = Some g" .
    obtain gr c1 w1 where g: "g = (gr, c1, w1)" by (metis prod_cases3)
    show ?thesis
    proof (cases gr)
      case (Inl ex)
      then show ?thesis using Suc.prems(1) st Some g' g f' by simp
    next
      case (Inr possible)
      obtain sr s2 c2 w2 where s: "start_on_clusters e possible (self, c1, w1) = (sr, s2, c2, w2)"
        by (metis prod_cases4)
      show ?thesis
      proof (cases sr)
        case (Inl ex)
        then show ?thesis using Suc.prems(1) st Some g' g f' Inr s by simp
      next
        case sr: (Inr b)
        show ?thesis
        proof (cases b)
          case True
          then show ?thesis using Suc.prems(1) st Some g' g f' Inr s sr by simp
        next
          case False
          then have "select_loop fuel e pf clusters (s2, c2, w2) = Some res"
            using Suc.prems(1) st Some g Inr s sr by simp
          from Suc.IH [OF this f'(2)] show ?thesis
            using st g' g f' Inr s sr False by simp
        qed
      qed
    qed
  qed
qed

lemma select_loop_all_failed:
  assumes "clusters \<noteq> []" "\<forall>ctx \<in> snd ` set contexts. failed ctx"
  shows "select_loop (Suc (Suc 0)) e pf clusters (self, contexts, w) \<noteq> None"
proof -
  have "wait_for_any_cluster (now_at e (tick w)) contexts = Inl AllClustersFailedException"
    using assms(2) wait_raises_iff by blast
  then have "get_clusters (Suc 0) e self pf contexts clusters w
             = Some (Inl AllClustersFailedException, contexts, w)"
    using assms(1) by (simp add: get_clusters_def)
  then show ?thesis by simp
qed

lemma all_contexts_failed:
  assumes "distinct (map fst contexts)" "fst ` set contexts \<subseteq> name ` set clusters"
    and "\<forall>c \<in> set clusters. ctx_failed contexts c"
  shows "\<forall>ctx \<in> snd ` set contexts. failed ctx"
proof
  fix ctx assume "ctx \<in> snd ` set contexts"
  then obtain n where n: "(n, ctx) \<in> set contexts" by auto
  then obtain c where c: "c \<in> set clusters" "name c = n" using assms(2) by force
  have "map_of contexts n = Some ctx" using assms(1) n by simp
  then show "failed ctx" using assms(3) c by (auto simp: ctx_failed_def)
qed

lemma set_get_clusters_ret: "set (get_clusters_ret possible) = set possible"
  by (simp add: get_clusters_ret_def)

lemma select_loop_terminates:
  assumes "clock_passes e" "clusters \<noteq> []"
  shows "distinct (map fst contexts) \<Longrightarrow> fst ` set contexts \<subseteq> name ` set clusters
         \<Longrightarrow> \<exists>fuel. select_loop fuel e pf clusters (self, contexts, w) \<noteq> None"
proof (induction "remaining_total contexts" arbitrary: contexts w self rule: less_induct)
  case less
  obtain f1 g where f1: "get_clusters_loop f1 e self pf clusters (contexts, w) = Some g"
    using get_clusters_loop_terminates [OF assms(1), of self pf clusters contexts w] by auto
  obtain gr c1 w1 where g: "g = (gr, c1, w1)" by (metis prod_cases3)
  have c1: "remaining_total c1 \<le> remaining_total contexts" "map fst c1 = map fst contexts"
    using get_clusters_loop_contexts [OF f1 [unfolded g]] by blast+
  show ?case
  proof (cases gr)
    case (Inl ex)
    then have "get_clusters f1 e self pf contexts clusters w = Some (Inl ex, c1, w1)"
      using f1 g by (simp add: get_clusters_def)
    then have "select_loop (Suc f1) e pf clusters (self, contexts, w) \<noteq> None" by simp
    then show ?thesis by blast
  next
    case (Inr possible)
    then have gc: "get_clusters f1 e self pf contexts clusters w
                   = Some (Inr (get_clusters_ret possible), c1, w1)"
      using f1 g by (simp add: get_clusters_def)
    obtain sr s2 c2 w2 where
      s: "start_on_clusters e (get_clusters_ret possible) (self, c1, w1) = (sr, s2, c2, w2)"
      by (metis prod_cases4)
    have c2: "remaining_total c2 \<le> remaining_total c1" "map fst c2 = map fst c1"
      using start_on_clusters_contexts [OF s] by blast+
    show ?thesis
    proof (cases sr)
      case (Inl ex)
      then have "select_loop (Suc f1) e pf clusters (self, contexts, w) \<noteq> None"
        using gc s by simp
      then show ?thesis by blast
    next
      case sr: (Inr b)
      show ?thesis
      proof (cases b)
        case True
        then have "select_loop (Suc f1) e pf clusters (self, contexts, w) \<noteq> None"
          using gc s sr by simp
        then show ?thesis by blast
      next
        case False
        have d2: "distinct (map fst c2)" using c1(2) c2(2) less.prems(1) by simp
        have k2: "fst ` set c2 \<subseteq> name ` set clusters"
        proof -
          have "fst ` set c2 = set (map fst c2)" by simp
          also have "\<dots> = set (map fst contexts)" using c1(2) c2(2) by simp
          finally show ?thesis using less.prems(2) by simp
        qed
        have "\<exists>f2. select_loop f2 e pf clusters (s2, c2, w2) \<noteq> None"
        proof (cases "possible = []")
          case True
          then have "get_clusters_ret possible = []" by (simp add: get_clusters_ret_def)
          then have same: "c2 = c1" using s by simp
          have "\<forall>c \<in> set clusters. ctx_failed c1 c"
            using get_clusters_loop_none_left [of f1 e self pf clusters contexts w c1 w1]
              f1 g Inr True by simp
          then have "\<forall>ctx \<in> snd ` set c2. failed ctx"
            using all_contexts_failed [OF d2 k2] same by simp
          from select_loop_all_failed [OF assms(2) this] show ?thesis by blast
        next
          case ne: False
          then obtain ci rest where cr: "get_clusters_ret possible = ci # rest"
            using set_get_clusters_ret [of possible] by (cases "get_clusters_ret possible") auto
          then have mem: "ci \<in> set possible" using set_get_clusters_ret [of possible] by auto
          have "remaining_total c2 < remaining_total contexts"
          proof (cases "remaining_total c1 < remaining_total contexts")
            case True
            then show ?thesis using c2(1) by simp
          next
            case False
            then have "\<forall>ci \<in> set possible. live_ctx c1 ci"
              using get_clusters_loop_live [of f1 e self pf clusters contexts w possible c1 w1]
                f1 g Inr by auto
            then have "live_ctx c1 ci" using mem by blast
            from start_on_clusters_progress [OF _ this, of e rest self w1 s2 c2 w2]
            have "remaining_total c2 < remaining_total c1" using s cr sr \<open>\<not> b\<close> by simp
            then show ?thesis using c1(1) by simp
          qed
          from less.hyps [OF this d2 k2] show ?thesis .
        qed
        then obtain f2 r2 where f2: "select_loop f2 e pf clusters (s2, c2, w2) = Some r2" by auto
        let ?f = "max f1 f2"
        have "get_clusters ?f e self pf contexts clusters w
                   = Some (Inr (get_clusters_ret possible), c1, w1)"
          using get_clusters_mono [OF gc, of ?f] by simp
        moreover have "select_loop ?f e pf clusters (s2, c2, w2) = Some r2"
          using select_loop_mono [OF f2, of ?f] by simp
        ultimately have "select_loop (Suc ?f) e pf clusters (self, contexts, w) = Some r2"
          using s sr False by simp
        then show ?thesis by blast
      qed
    qed
  qed
qed

lemma select_and_start_cluster_terminates:
  assumes "clock_passes e" "get_enabled_clusters_for_platform pf \<noteq> []"
  shows "\<exists>fuel. select_and_start_cluster fuel e get_enabled_clusters_for_platform pf (self, w) \<noteq> None"
proof -
  let ?cl = "get_enabled_clusters_for_platform pf"
  let ?ctxs = "fresh_retry_contexts (self_max_cluster_fails self) ?cl"
  have "distinct (map fst ?ctxs)" by (simp add: fresh_retry_contexts_def comp_def)
  moreover have "fst ` set ?ctxs \<subseteq> name ` set ?cl"
    by (auto simp: fresh_retry_contexts_def)
  ultimately obtain fuel where "select_loop fuel e pf ?cl (self, ?ctxs, w) \<noteq> None"
    using select_loop_terminates [OF assms] by blast
  then have "select_and_start_cluster fuel e get_enabled_clusters_for_platform pf (self, w) \<noteq> None"
    using assms(2) by (simp add: select_and_start_cluster_def Let_def)
  then show ?thesis by blast
qed


section \<open>A dead context stays dead\<close>

lemma get_clusters_contexts:
  "get_clusters fuel e self pf contexts all_clusters w = Some (r, contexts', w')
   \<Longrightarrow> ctx_failed contexts c \<Longrightarrow> ctx_failed contexts' c"
proof -
  assume a: "get_clusters fuel e self pf contexts all_clusters w = Some (r, contexts', w')"
    and f: "ctx_failed contexts c"
  from a obtain r0 where
    "get_clusters_loop fuel e self pf all_clusters (contexts, w) = Some (r0, contexts', w')"
    by (auto simp: get_clusters_def split: option.splits sum.splits prod.splits)
  from get_clusters_loop_contexts [OF this] f show ?thesis by blast
qed

lemma example_dead_context_run:
  "map_option (\<lambda>(r, contexts', w'). (map osbs (projr r), contexts'))
     (get_clusters 1 example_env example_self (PyStr ''x86_64'')
        [(''a'', \<lparr>fails = 2, retry_at = 5000000, max_cluster_fails = 2\<rparr>),
         (''b'', ClusterRetryContext_init 2)]
        [cluster_a, cluster_b] world0)
   = Some ([''b''],
           [(''a'', \<lparr>fails = 2, retry_at = 5000000, max_cluster_fails = 2\<rparr>),
            (''b'', ClusterRetryContext_init 2)])"
  by code_simp

text \<open>
  C5: on a failed context \<open>try_again_later\<close> changes nothing, so the context
  stays failed through any sequence of later calls, and through the loops of a
  run, \<open>get_clusters\<close> and the attempts to start a build; on a context that is
  not failed \<open>try_again_later\<close> adds one to \<open>fails\<close> and sets \<open>retry_at\<close> to now
  plus the delay.
\<close>

theorem try_again_later_dead_or_counted:
  "(failed ctx \<longrightarrow>
      try_again_later now seconds ctx = ctx
    \<and> failed (fold (\<lambda>(now, seconds). try_again_later now seconds) calls ctx))
   \<and> (\<not> failed ctx \<longrightarrow>
      fails (try_again_later now seconds ctx) = fails ctx + 1
    \<and> retry_at (try_again_later now seconds ctx) = now + seconds
    \<and> max_cluster_fails (try_again_later now seconds ctx) = max_cluster_fails ctx)
   \<and> (ctx_failed contexts c
        \<and> get_clusters fuel e self pf contexts all_clusters w = Some (r, contexts', w')
      \<longrightarrow> ctx_failed contexts' c)
   \<and> (ctx_failed contexts c
        \<and> start_on_clusters e infos (self, contexts, w) = (sr, self'', contexts'', w'')
      \<longrightarrow> ctx_failed contexts'' c)"
proof -
  have a: "failed ctx \<longrightarrow>
      try_again_later now seconds ctx = ctx
    \<and> failed (fold (\<lambda>(now, seconds). try_again_later now seconds) calls ctx)"
    using failed_fold_try_again_later [of ctx calls] by (simp add: try_again_later_def)
  have b: "\<not> failed ctx \<longrightarrow>
      fails (try_again_later now seconds ctx) = fails ctx + 1
    \<and> retry_at (try_again_later now seconds ctx) = now + seconds
    \<and> max_cluster_fails (try_again_later now seconds ctx) = max_cluster_fails ctx"
    by (simp add: try_again_later_def)
  have c: "ctx_failed contexts c
        \<and> get_clusters fuel e self pf contexts all_clusters w = Some (r, contexts', w')
      \<longrightarrow> ctx_failed contexts' c"
    using get_clusters_contexts by blast
  have d: "ctx_failed contexts c
        \<and> start_on_clusters e infos (self, contexts, w) = (sr, self'', contexts'', w'')
      \<longrightarrow> ctx_failed contexts'' c"
    using start_on_clusters_contexts by blast
  show ?thesis by (intro conjI) (rule a b c d)+
qed

theorem try_again_later_dead_or_counted_witness:
  "failed \<lparr>fails = 2, retry_at = 5000000, max_cluster_fails = 2\<rparr>
   \<and> try_again_later 7000000 10000000 \<lparr>fails = 2, retry_at = 5000000, max_cluster_fails = 2\<rparr>
       = \<lparr>fails = 2, retry_at = 5000000, max_cluster_fails = 2\<rparr>
   \<and> failed (fold (\<lambda>(now, seconds). try_again_later now seconds) [(8000000, 15000000)]
         \<lparr>fails = 2, retry_at = 5000000, max_cluster_fails = 2\<rparr>)
   \<and> \<not> failed \<lparr>fails = 1, retry_at = 0, max_cluster_fails = 2\<rparr>
   \<and> fails (try_again_later 7000000 10000000 \<lparr>fails = 1, retry_at = 0, max_cluster_fails = 2\<rparr>) = 2
   \<and> retry_at (try_again_later 7000000 10000000 \<lparr>fails = 1, retry_at = 0, max_cluster_fails = 2\<rparr>)
       = 17000000
   \<and> ctx_failed [(''a'', \<lparr>fails = 2, retry_at = 5000000, max_cluster_fails = 2\<rparr>),
                  (''b'', ClusterRetryContext_init 2)] cluster_a
   \<and> map_option (\<lambda>(r, contexts', w'). (map osbs (projr r), contexts'))
        (get_clusters 1 example_env example_self (PyStr ''x86_64'')
           [(''a'', \<lparr>fails = 2, retry_at = 5000000, max_cluster_fails = 2\<rparr>),
            (''b'', ClusterRetryContext_init 2)]
           [cluster_a, cluster_b] world0)
      = Some ([''b''],
              [(''a'', \<lparr>fails = 2, retry_at = 5000000, max_cluster_fails = 2\<rparr>),
               (''b'', ClusterRetryContext_init 2)])
   \<and> start_on_clusters example_env [] (example_self,
         [(''a'', \<lparr>fails = 2, retry_at = 5000000, max_cluster_fails = 2\<rparr>)], world0)
      = (Inr False, example_self,
         [(''a'', \<lparr>fails = 2, retry_at = 5000000, max_cluster_fails = 2\<rparr>)], world0)"
proof -
  let ?dead = "\<lparr>fails = 2, retry_at = 5000000, max_cluster_fails = 2\<rparr>"
  let ?ctxs = "[(''a'', ?dead), (''b'', ClusterRetryContext_init 2)]"
  let ?X = "get_clusters 1 example_env example_self (PyStr ''x86_64'') ?ctxs
              [cluster_a, cluster_b] world0"
  have cf: "ctx_failed ?ctxs cluster_a"
    by (simp add: ctx_failed_def cluster_a_def failed_def)
  have cf1: "ctx_failed [(''a'', ?dead)] cluster_a"
    by (simp add: ctx_failed_def cluster_a_def failed_def)
  obtain r0 c0 w0 where x: "?X = Some (r0, c0, w0)"
    using example_dead_context_run by (cases ?X) auto
  show ?thesis
    using try_again_later_dead_or_counted
            [where ctx = ?dead and now = 7000000 and seconds = 10000000
               and calls = "[(8000000, 15000000)]"
               and contexts = ?ctxs and c = cluster_a and fuel = 1 and e = example_env
               and self = example_self and pf = "PyStr ''x86_64''"
               and all_clusters = "[cluster_a, cluster_b]" and w = world0
               and r = r0 and contexts' = c0 and w' = w0
               and infos = "[]" and sr = "Inr False" and self'' = example_self
               and contexts'' = ?ctxs and w'' = world0]
          try_again_later_dead_or_counted
            [where ctx = "\<lparr>fails = 1, retry_at = 0, max_cluster_fails = 2\<rparr>"
               and now = 7000000 and seconds = 10000000 and calls = "[]"
               and contexts = "[(''a'', ?dead)]" and c = cluster_a
               and e = example_env and self = example_self and w = world0
               and infos = "[]" and sr = "Inr False" and self'' = example_self
               and contexts'' = "[(''a'', ?dead)]" and w'' = world0]
          cf cf1 x example_dead_context_run
    by (simp add: failed_def)
qed

section \<open>The build infos and the upload directory of a run\<close>

lemma new_calls_append: "create_calls w' = create_calls w @ new \<Longrightarrow> new_calls w w' = new"
  by (simp add: new_calls_def)

lemma run_result:
  "map_option fst X = Some r \<Longrightarrow> X = Some (r, fst (snd (the X)), snd (snd (the X)))"
  by (cases X) auto

lemma select_and_start_cluster_summary:
  assumes "select_and_start_cluster fuel e cfg pf (self, w) = Some (r, self', w')"
  shows "(\<forall>c \<in> set (new_calls w w'). upload_dir_passed self c)
        \<and> (\<exists>bs. self' = self\<lparr>worker_builds := bs\<rparr>)
        \<and> (r = Inr () \<longrightarrow>
              (\<exists>bi. worker_builds self' = worker_builds self @ [bi]
                  \<and> (build bi \<noteq> None \<longrightarrow> (\<exists>c \<in> set (new_calls w w'). created c))))"
proof (cases "cfg pf = []")
  case True
  then have "r = Inl UnknownPlatformException" "self' = self" "w' = w"
    using assms by (simp_all add: select_and_start_cluster_def)
  then show ?thesis using self_update_same [of self] by (simp add: new_calls_def)
next
  case False
  then have "select_loop fuel e pf (cfg pf)
               (self, fresh_retry_contexts (self_max_cluster_fails self) (cfg pf), w)
             = Some (r, self', w')"
    using assms by (simp add: select_and_start_cluster_def Let_def)
  from select_loop_summary [OF this] obtain new where
    n: "create_calls w' = create_calls w @ new"
       "\<forall>c \<in> set new. upload_dir_passed self c"
       "\<exists>bs. self' = self\<lparr>worker_builds := bs\<rparr>"
       "r = Inr () \<longrightarrow>
              (\<exists>bi. worker_builds self' = worker_builds self @ [bi]
                  \<and> (build bi \<noteq> None \<longrightarrow> (\<exists>c \<in> set new. created c)))"
    by blast
  show ?thesis using n(2,3,4) new_calls_append [OF n(1)] by simp
qed

lemma clock_passes_example: "clock_passes example_env"
  unfolding clock_passes_def
proof
  fix t :: int
  have "\<forall>k \<ge> nat t. t \<le> now_at example_env k"
    by (auto simp: example_env_def)
  then show "\<exists>K. \<forall>k \<ge> K. t \<le> now_at example_env k" by blast
qed

lemma clock_passes_example_ok: "clock_passes example_env_ok"
  using clock_passes_example by (simp add: clock_passes_def example_env_ok_def)

lemma select_and_start_cluster_mono:
  "select_and_start_cluster fuel e cfg pf st = Some res \<Longrightarrow> fuel \<le> fuel'
   \<Longrightarrow> select_and_start_cluster fuel' e cfg pf st = Some res"
  using select_loop_mono [of fuel e pf "cfg pf" _ res fuel']
  by (cases st) (auto simp: select_and_start_cluster_def Let_def split: if_splits)

lemma example_run_ok:
  "map_option (\<lambda>(r, s, w). (r, map build (worker_builds s), map created (new_calls world0 w)))
     (select_and_start_cluster 2 example_env_ok two_clusters (PyStr ''x86_64'')
        (example_self, world0))
   = Some (Inr (), [Some \<lparr>build_name = ''build-1'', is_finished = True\<rparr>], [False, True])"
  by code_simp

lemma example_run_failed_create:
  "map_option (\<lambda>(r, s, w). (r, map build (worker_builds s), map created (new_calls world0 w)))
     (select_and_start_cluster 2 example_env two_clusters (PyStr ''x86_64'')
        (example_self, world0))
   = Some (Inr (), [None], [False, False])"
  by code_simp

lemma example_run_sentinel:
  "map_option (\<lambda>(r, s, w). (r, map build (worker_builds s), map monitor_exception (worker_builds s),
                  map created (new_calls world0 w)))
     (select_and_start_cluster 4 example_env one_cluster (PyStr ''x86_64'')
        (example_self, world0))
   = Some (Inr (), [None], [Some AllClustersFailedException], [False, False])"
  by code_simp

text \<open>
  C2 as stated fails: for a platform without an enabled cluster
  \<open>select_and_start_cluster\<close> raises \<open>UnknownPlatformException\<close> and the plugin,
  with its list of worker builds, is as it was: nothing has been appended.
\<close>

theorem select_and_start_cluster_unknown_platform_counterexample:
  "select_and_start_cluster 10 example_env no_clusters (PyStr ''s390x'') (example_self, world0)
     = Some (Inl UnknownPlatformException, example_self, world0)
   \<and> worker_builds example_self = []"
  by (simp add: select_and_start_cluster_def no_clusters_def example_self_def
      OrchestrateBuildPlugin_init_def)

text \<open>
  C2, amended: for a platform with no enabled cluster \<open>select_and_start_cluster\<close>
  raises \<open>UnknownPlatformException\<close> and appends nothing. Whenever it returns,
  after a cluster succeeded, after every cluster used up its retries (the
  sentinel) or after a creation failed for good, exactly one \<open>WorkerBuildInfo\<close>
  has been appended to \<open>worker_builds\<close>, and its \<open>build\<close> is set only if a
  \<open>create_worker_build\<close> call of this run returned a build. With an enabled
  cluster and a clock that passes, the run ends; and a run that has ended
  within some fuel is the same with more.
\<close>

theorem select_and_start_cluster_one_build_info:
  "(cfg pf = []
      \<longrightarrow> select_and_start_cluster fuel e cfg pf (self, w)
          = Some (Inl UnknownPlatformException, self, w))
   \<and> (select_and_start_cluster fuel e cfg pf (self, w) = Some (Inr (), self', w')
      \<longrightarrow> (\<exists>bi. worker_builds self' = worker_builds self @ [bi]
              \<and> (build bi \<noteq> None \<longrightarrow> (\<exists>c \<in> set (new_calls w w'). created c))))
   \<and> (clock_passes e \<and> cfg pf \<noteq> []
      \<longrightarrow> (\<exists>fuel'. select_and_start_cluster fuel' e cfg pf (self, w) \<noteq> None))
   \<and> (select_and_start_cluster fuel e cfg pf (self, w) = Some res \<and> fuel \<le> more_fuel
      \<longrightarrow> select_and_start_cluster more_fuel e cfg pf (self, w) = Some res)"
proof (intro conjI impI)
  assume "cfg pf = []"
  then show "select_and_start_cluster fuel e cfg pf (self, w)
          = Some (Inl UnknownPlatformException, self, w)"
    by (simp add: select_and_start_cluster_def)
next
  assume "select_and_start_cluster fuel e cfg pf (self, w) = Some (Inr (), self', w')"
  from select_and_start_cluster_summary [OF this]
  show "\<exists>bi. worker_builds self' = worker_builds self @ [bi]
              \<and> (build bi \<noteq> None \<longrightarrow> (\<exists>c \<in> set (new_calls w w'). created c))"
    by blast
next
  assume "clock_passes e \<and> cfg pf \<noteq> []"
  then show "\<exists>fuel'. select_and_start_cluster fuel' e cfg pf (self, w) \<noteq> None"
    using select_and_start_cluster_terminates by blast
next
  assume "select_and_start_cluster fuel e cfg pf (self, w) = Some res \<and> fuel \<le> more_fuel"
  then show "select_and_start_cluster more_fuel e cfg pf (self, w) = Some res"
    using select_and_start_cluster_mono by blast
qed

theorem select_and_start_cluster_one_build_info_witness:
  "no_clusters (PyStr ''s390x'') = []
   \<and> select_and_start_cluster 10 example_env no_clusters (PyStr ''s390x'') (example_self, world0)
       = Some (Inl UnknownPlatformException, example_self, world0)
   \<and> map_option (\<lambda>(r, s, w). (r, map build (worker_builds s), map created (new_calls world0 w)))
        (select_and_start_cluster 2 example_env_ok two_clusters (PyStr ''x86_64'')
           (example_self, world0))
       = Some (Inr (), [Some \<lparr>build_name = ''build-1'', is_finished = True\<rparr>], [False, True])
   \<and> map_option (\<lambda>(r, s, w). (r, map build (worker_builds s), map created (new_calls world0 w)))
        (select_and_start_cluster 2 example_env two_clusters (PyStr ''x86_64'')
           (example_self, world0))
       = Some (Inr (), [None], [False, False])
   \<and> map_option (\<lambda>(r, s, w). (r, map build (worker_builds s),
                    map monitor_exception (worker_builds s), map created (new_calls world0 w)))
        (select_and_start_cluster 4 example_env one_cluster (PyStr ''x86_64'')
           (example_self, world0))
       = Some (Inr (), [None], [Some AllClustersFailedException], [False, False])
   \<and> length (worker_builds (fst (snd (the
          (select_and_start_cluster 2 example_env_ok two_clusters (PyStr ''x86_64'')
             (example_self, world0))))))
       = Suc (length (worker_builds example_self))
   \<and> length (worker_builds (fst (snd (the
          (select_and_start_cluster 2 example_env two_clusters (PyStr ''x86_64'')
             (example_self, world0))))))
       = Suc (length (worker_builds example_self))
   \<and> length (worker_builds (fst (snd (the
          (select_and_start_cluster 4 example_env one_cluster (PyStr ''x86_64'')
             (example_self, world0))))))
       = Suc (length (worker_builds example_self))
   \<and> clock_passes example_env_ok \<and> two_clusters (PyStr ''x86_64'') \<noteq> []
   \<and> (\<exists>fuel. select_and_start_cluster fuel example_env_ok two_clusters (PyStr ''x86_64'')
                (example_self, world0) \<noteq> None)
   \<and> (2 :: nat) \<le> 5
   \<and> select_and_start_cluster 5 example_env_ok two_clusters (PyStr ''x86_64'')
         (example_self, world0)
       = select_and_start_cluster 2 example_env_ok two_clusters (PyStr ''x86_64'')
           (example_self, world0)"
proof -
  let ?X = "select_and_start_cluster 2 example_env_ok two_clusters (PyStr ''x86_64'')
              (example_self, world0)"
  let ?Y = "select_and_start_cluster 2 example_env two_clusters (PyStr ''x86_64'')
              (example_self, world0)"
  let ?Z = "select_and_start_cluster 4 example_env one_cluster (PyStr ''x86_64'')
              (example_self, world0)"
  have "map_option fst ?X = Some (Inr ())"
    using example_run_ok by (cases ?X) auto
  from run_result [OF this]
  have run_x: "?X = Some (Inr (), fst (snd (the ?X)), snd (snd (the ?X)))" .
  have "map_option fst ?Y = Some (Inr ())"
    using example_run_failed_create by (cases ?Y) auto
  from run_result [OF this]
  have run_y: "?Y = Some (Inr (), fst (snd (the ?Y)), snd (snd (the ?Y)))" .
  have "map_option fst ?Z = Some (Inr ())"
    using example_run_sentinel by (cases ?Z) auto
  from run_result [OF this]
  have run_z: "?Z = Some (Inr (), fst (snd (the ?Z)), snd (snd (the ?Z)))" .
  have ne: "two_clusters (PyStr ''x86_64'') \<noteq> []" by (simp add: two_clusters_def)
  have em: "no_clusters (PyStr ''s390x'') = []" by (simp add: no_clusters_def)
  note unknown = select_and_start_cluster_one_build_info
            [where cfg = no_clusters and pf = "PyStr ''s390x''" and fuel = 10
               and e = example_env and self = example_self and w = world0]
  note at_x = select_and_start_cluster_one_build_info
            [where cfg = two_clusters and pf = "PyStr ''x86_64''" and fuel = 2
               and e = example_env_ok and self = example_self and w = world0
               and self' = "fst (snd (the ?X))" and w' = "snd (snd (the ?X))"
               and res = "(Inr (), fst (snd (the ?X)), snd (snd (the ?X)))" and more_fuel = 5]
  note at_y = select_and_start_cluster_one_build_info
            [where cfg = two_clusters and pf = "PyStr ''x86_64''" and fuel = 2
               and e = example_env and self = example_self and w = world0
               and self' = "fst (snd (the ?Y))" and w' = "snd (snd (the ?Y))"]
  note at_z = select_and_start_cluster_one_build_info
            [where cfg = one_cluster and pf = "PyStr ''x86_64''" and fuel = 4
               and e = example_env and self = example_self and w = world0
               and self' = "fst (snd (the ?Z))" and w' = "snd (snd (the ?Z))"]
  have c_unknown: "select_and_start_cluster 10 example_env no_clusters (PyStr ''s390x'')
                     (example_self, world0)
                   = Some (Inl UnknownPlatformException, example_self, world0)"
    using unknown [THEN conjunct1] em by blast
  have "\<exists>bi. worker_builds (fst (snd (the ?X))) = worker_builds example_self @ [bi]"
    using at_x [THEN conjunct2, THEN conjunct1] run_x by blast
  then have len_x: "length (worker_builds (fst (snd (the ?X))))
                    = Suc (length (worker_builds example_self))" by auto
  have "\<exists>bi. worker_builds (fst (snd (the ?Y))) = worker_builds example_self @ [bi]"
    using at_y [THEN conjunct2, THEN conjunct1] run_y by blast
  then have len_y: "length (worker_builds (fst (snd (the ?Y))))
                    = Suc (length (worker_builds example_self))" by auto
  have "\<exists>bi. worker_builds (fst (snd (the ?Z))) = worker_builds example_self @ [bi]"
    using at_z [THEN conjunct2, THEN conjunct1] run_z by blast
  then have len_z: "length (worker_builds (fst (snd (the ?Z))))
                    = Suc (length (worker_builds example_self))" by auto
  have ends: "\<exists>fuel. select_and_start_cluster fuel example_env_ok two_clusters (PyStr ''x86_64'')
                (example_self, world0) \<noteq> None"
    using at_x [THEN conjunct2, THEN conjunct2, THEN conjunct1] clock_passes_example_ok ne
    by blast
  have le: "(2 :: nat) \<le> 5" by simp
  have "select_and_start_cluster 5 example_env_ok two_clusters (PyStr ''x86_64'')
          (example_self, world0)
        = Some (Inr (), fst (snd (the ?X)), snd (snd (the ?X)))"
    using at_x [THEN conjunct2, THEN conjunct2, THEN conjunct2] run_x le by blast
  then have more: "select_and_start_cluster 5 example_env_ok two_clusters (PyStr ''x86_64'')
          (example_self, world0) = ?X"
    using run_x by simp
  show ?thesis
    by (intro conjI)
       (rule em c_unknown example_run_ok example_run_failed_create example_run_sentinel
          len_x len_y len_z clock_passes_example_ok ne ends le more)+
qed

lemma select_and_start_cluster_calls:
  assumes "select_and_start_cluster fuel e cfg pf (self, w) = Some (r, self', w')"
  shows "\<exists>new. create_calls w' = create_calls w @ new
           \<and> (\<forall>c \<in> set new. upload_dir_passed self c)
           \<and> (\<exists>bs. self' = self\<lparr>worker_builds := bs\<rparr>)"
proof (cases "cfg pf = []")
  case True
  then have "self' = self" "w' = w"
    using assms by (simp_all add: select_and_start_cluster_def)
  then show ?thesis using self_update_same [of self] by simp
next
  case False
  then have "select_loop fuel e pf (cfg pf)
               (self, fresh_retry_contexts (self_max_cluster_fails self) (cfg pf), w)
             = Some (r, self', w')"
    using assms by (simp add: select_and_start_cluster_def Let_def)
  from select_loop_summary [OF this] show ?thesis by blast
qed

lemma two_runs_calls:
  assumes "select_and_start_cluster fuel e cfg pf (self, w) = Some (r, self', w')"
    and "select_and_start_cluster fuel' e cfg pf' (self', w') = Some (r', self'', w'')"
  shows "koji_upload_dir self' = koji_upload_dir self"
    and "koji_upload_dir self'' = koji_upload_dir self"
    and "\<forall>c \<in> set (new_calls w w''). upload_dir_passed self c"
    and "workflow_override_kwargs self'' = workflow_override_kwargs self"
proof -
  from select_and_start_cluster_calls [OF assms(1)] obtain new bs where
    one: "create_calls w' = create_calls w @ new" "\<forall>c \<in> set new. upload_dir_passed self c"
      "self' = self\<lparr>worker_builds := bs\<rparr>"
    by blast
  from select_and_start_cluster_calls [OF assms(2)] obtain new2 bs2 where
    two: "create_calls w'' = create_calls w' @ new2" "\<forall>c \<in> set new2. upload_dir_passed self' c"
      "self'' = self'\<lparr>worker_builds := bs2\<rparr>"
    by blast
  show "koji_upload_dir self' = koji_upload_dir self" using one(3) by simp
  show "koji_upload_dir self'' = koji_upload_dir self" using one(3) two(3) by simp
  show "workflow_override_kwargs self'' = workflow_override_kwargs self"
    using one(3) two(3) by simp
  have same: "upload_dir_passed self' c = upload_dir_passed self c" for c
    using one(3)
    by (cases "workflow_override_kwargs self ''koji_upload_dir''")
       (simp_all add: upload_dir_passed_def)
  have "create_calls w'' = create_calls w @ (new @ new2)" using one(1) two(1) by simp
  then have "new_calls w w'' = new @ new2" by (rule new_calls_append)
  then show "\<forall>c \<in> set (new_calls w w''). upload_dir_passed self c"
    using one(2) two(2) same by auto
qed

lemma example_override_run:
  "map_option (\<lambda>(r, s, w). map (\<lambda>(client, kwargs, outcome). (client, kwargs ''koji_upload_dir''))
                              (new_calls world0 w))
     (select_and_start_cluster 2 example_env_ok two_clusters (PyStr ''x86_64'')
        (example_self_override, world0))
   = Some [(''b'', Some (PyStr ''elsewhere'')), (''a'', Some (PyStr ''elsewhere''))]"
  by code_simp

lemma example_two_runs:
  "map_option (\<lambda>(r, s, w). (r, koji_upload_dir s,
                  map (\<lambda>(client, kwargs, outcome). (kwargs ''platform'', kwargs ''koji_upload_dir''))
                    (new_calls world0 w)))
     (select_and_start_cluster 2 example_env_ok two_clusters (PyStr ''ppc64le'')
        (snd (the (select_and_start_cluster 2 example_env_ok two_clusters (PyStr ''x86_64'')
                     (example_self, world0)))))
   = Some (Inr (), ''koji-upload/1510000000.25.ELSZgnuB'',
           [(Some (PyStr ''x86_64''), Some (PyStr ''koji-upload/1510000000.25.ELSZgnuB'')),
            (Some (PyStr ''x86_64''), Some (PyStr ''koji-upload/1510000000.25.ELSZgnuB'')),
            (Some (PyStr ''ppc64le''), Some (PyStr ''koji-upload/1510000000.25.ELSZgnuB'')),
            (Some (PyStr ''ppc64le''), Some (PyStr ''koji-upload/1510000000.25.ELSZgnuB''))])"
  by code_simp

text \<open>
  A clock reading of \<open>1e16\<close> is printed in scientific notation, and the
  directory made from it does not match the pattern.
\<close>

lemma get_koji_upload_dir_scientific:
  "get_koji_upload_dir (PyFloat 1 16) (\<lambda>i. 7 * i + 30) = ''koji-upload/1e+16.ELSZgnuB''
   \<and> \<not> matches_upload_dir_pattern ''koji-upload/1e+16.ELSZgnuB''"
  by code_simp

text \<open>
  C8 as stated fails: with \<open>koji_upload_dir\<close> among the workspace's
  \<open>override_kwargs\<close>, no \<open>create_worker_build\<close> call is given the directory
  the plugin generated; every call is given the override's value, which need
  not match the pattern.
\<close>

theorem koji_upload_dir_override_counterexample:
  "koji_upload_dir example_self_override = ''koji-upload/1510000000.25.ELSZgnuB''
   \<and> map_option (\<lambda>(r, s, w). map (\<lambda>(client, kwargs, outcome). (client, kwargs ''koji_upload_dir''))
                                (new_calls world0 w))
       (select_and_start_cluster 2 example_env_ok two_clusters (PyStr ''x86_64'')
          (example_self_override, world0))
     = Some [(''b'', Some (PyStr ''elsewhere'')), (''a'', Some (PyStr ''elsewhere''))]
   \<and> \<not> matches_upload_dir_pattern ''elsewhere''"
proof -
  have dir: "koji_upload_dir example_self_override = ''koji-upload/1510000000.25.ELSZgnuB''"
    by code_simp
  have no_match: "\<not> matches_upload_dir_pattern ''elsewhere''"
    by code_simp
  show ?thesis
    by (intro conjI) (rule dir example_override_run no_match)+
qed

text \<open>
  C8, amended: the plugin's \<open>koji_upload_dir\<close> is generated when the plugin is
  built, from one reading of the clock and eight random draws: it is
  \<open>koji-upload/\<close>, the \<open>repr\<close> of the reading, a dot and the eight characters
  drawn, which are ASCII letters. For a reading that is zero or at least \<open>0.0001\<close> and below \<open>1e16\<close>
  it matches \<open>^koji-upload/\d+(\.\d+)?\.[A-Za-z]{8}$\<close>. Dispatching a platform
  with \<open>select_and_start_cluster\<close>, and then another one, leaves it and the
  workspace's \<open>override_kwargs\<close> as they are, and every \<open>create_worker_build\<close>
  call of the two dispatches is given it as \<open>koji_upload_dir\<close>, unless the
  \<open>override_kwargs\<close> have that key: then every call is given the override's
  value.
\<close>

theorem koji_upload_dir_generated_once:
  "koji_upload_dir (OrchestrateBuildPlugin_init ps bk fd fld mf time_time draws tid rel ov rb)
     = ''koji-upload/'' @ float_repr time_time @ ''.''
       @ map (\<lambda>i. random_choice ascii_letters (draws i)) [0..<8]
   \<and> list_all is_letter (map (\<lambda>i. random_choice ascii_letters (draws i)) [0..<8])
   \<and> (clock_in_range time_time
      \<longrightarrow> matches_upload_dir_pattern
            (koji_upload_dir
               (OrchestrateBuildPlugin_init ps bk fd fld mf time_time draws tid rel ov rb)))
   \<and> (select_and_start_cluster fuel e cfg pf (self, w) = Some (r, self', w')
      \<and> select_and_start_cluster fuel' e cfg pf' (self', w') = Some (r', self'', w'')
      \<longrightarrow> koji_upload_dir self' = koji_upload_dir self
        \<and> koji_upload_dir self'' = koji_upload_dir self
        \<and> workflow_override_kwargs self'' = workflow_override_kwargs self
        \<and> (\<forall>c \<in> set (new_calls w w'').
              fst (snd c) ''koji_upload_dir''
              = (case workflow_override_kwargs self ''koji_upload_dir'' of
                   None \<Rightarrow> Some (PyStr (koji_upload_dir self))
                 | Some v \<Rightarrow> Some v)))"
proof -
  have generated:
    "koji_upload_dir (OrchestrateBuildPlugin_init ps bk fd fld mf time_time draws tid rel ov rb)
     = ''koji-upload/'' @ float_repr time_time @ ''.''
       @ map (\<lambda>i. random_choice ascii_letters (draws i)) [0..<8]"
    by (simp add: OrchestrateBuildPlugin_init_def get_koji_upload_dir_eq)
  have pattern:
    "clock_in_range time_time
      \<longrightarrow> matches_upload_dir_pattern
            (koji_upload_dir
               (OrchestrateBuildPlugin_init ps bk fd fld mf time_time draws tid rel ov rb))"
    using get_koji_upload_dir_matches [of time_time draws]
    by (simp add: OrchestrateBuildPlugin_init_def)
  have shared:
    "select_and_start_cluster fuel e cfg pf (self, w) = Some (r, self', w')
      \<and> select_and_start_cluster fuel' e cfg pf' (self', w') = Some (r', self'', w'')
      \<longrightarrow> koji_upload_dir self' = koji_upload_dir self
        \<and> koji_upload_dir self'' = koji_upload_dir self
        \<and> workflow_override_kwargs self'' = workflow_override_kwargs self
        \<and> (\<forall>c \<in> set (new_calls w w'').
              fst (snd c) ''koji_upload_dir''
              = (case workflow_override_kwargs self ''koji_upload_dir'' of
                   None \<Rightarrow> Some (PyStr (koji_upload_dir self))
                 | Some v \<Rightarrow> Some v))"
  proof
    assume runs: "select_and_start_cluster fuel e cfg pf (self, w) = Some (r, self', w')
      \<and> select_and_start_cluster fuel' e cfg pf' (self', w') = Some (r', self'', w'')"
    note t = two_runs_calls [OF runs [THEN conjunct1] runs [THEN conjunct2]]
    have "\<forall>c \<in> set (new_calls w w'').
              fst (snd c) ''koji_upload_dir''
              = (case workflow_override_kwargs self ''koji_upload_dir'' of
                   None \<Rightarrow> Some (PyStr (koji_upload_dir self))
                 | Some v \<Rightarrow> Some v)"
      using t(3) unfolding upload_dir_passed_def .
    then show "koji_upload_dir self' = koji_upload_dir self
        \<and> koji_upload_dir self'' = koji_upload_dir self
        \<and> workflow_override_kwargs self'' = workflow_override_kwargs self
        \<and> (\<forall>c \<in> set (new_calls w w'').
              fst (snd c) ''koji_upload_dir''
              = (case workflow_override_kwargs self ''koji_upload_dir'' of
                   None \<Rightarrow> Some (PyStr (koji_upload_dir self))
                 | Some v \<Rightarrow> Some v))"
      using t(1,2,4) by blast
  qed
  show ?thesis
    by (intro conjI) (rule generated random_chars_letters pattern shared)+
qed

theorem koji_upload_dir_generated_once_witness:
  "clock_in_range (PyFloat 151000000025 (- 2))
   \<and> float_repr (PyFloat 151000000025 (- 2)) = ''1510000000.25''
   \<and> map (\<lambda>i. random_choice ascii_letters (7 * i + 30)) [0..<8] = ''ELSZgnuB''
   \<and> koji_upload_dir example_self = ''koji-upload/1510000000.25.ELSZgnuB''
   \<and> matches_upload_dir_pattern (koji_upload_dir example_self)
   \<and> workflow_override_kwargs example_self ''koji_upload_dir'' = None
   \<and> map_option fst
        (select_and_start_cluster 2 example_env_ok two_clusters (PyStr ''x86_64'')
           (example_self, world0))
       = Some (Inr ())
   \<and> map_option (\<lambda>(r, s, w). (r, koji_upload_dir s,
                    map (\<lambda>(client, kwargs, outcome). (kwargs ''platform'', kwargs ''koji_upload_dir''))
                      (new_calls world0 w)))
        (select_and_start_cluster 2 example_env_ok two_clusters (PyStr ''ppc64le'')
           (snd (the (select_and_start_cluster 2 example_env_ok two_clusters (PyStr ''x86_64'')
                        (example_self, world0)))))
       = Some (Inr (), ''koji-upload/1510000000.25.ELSZgnuB'',
               [(Some (PyStr ''x86_64''), Some (PyStr ''koji-upload/1510000000.25.ELSZgnuB'')),
                (Some (PyStr ''x86_64''), Some (PyStr ''koji-upload/1510000000.25.ELSZgnuB'')),
                (Some (PyStr ''ppc64le''), Some (PyStr ''koji-upload/1510000000.25.ELSZgnuB'')),
                (Some (PyStr ''ppc64le''), Some (PyStr ''koji-upload/1510000000.25.ELSZgnuB''))])
   \<and> list_all (\<lambda>c. fst (snd c) ''koji_upload_dir'' = Some (PyStr (koji_upload_dir example_self)))
        (new_calls world0
           (snd (snd (the (select_and_start_cluster 2 example_env_ok two_clusters (PyStr ''ppc64le'')
              (snd (the (select_and_start_cluster 2 example_env_ok two_clusters (PyStr ''x86_64'')
                           (example_self, world0)))))))))"
proof -
  let ?X = "select_and_start_cluster 2 example_env_ok two_clusters (PyStr ''x86_64'')
              (example_self, world0)"
  let ?Y = "select_and_start_cluster 2 example_env_ok two_clusters (PyStr ''ppc64le'')
              (snd (the ?X))"
  note at = koji_upload_dir_generated_once
      [where ps = "[PyStr ''x86_64'']" and bk = "[''architecture'' \<mapsto> PyStr ''x86_64'']"
         and fd = 15000000 and fld = 10000000 and mf = 2
         and time_time = "PyFloat 151000000025 (- 2)" and draws = "\<lambda>i. 7 * i + 30"
         and tid = "Some 0" and rel = "Some ''1''" and ov = "[''release'' \<mapsto> PyStr ''2.0'']"
         and rb = False
         and fuel = 2 and fuel' = 2 and e = example_env_ok and cfg = two_clusters
         and pf = "PyStr ''x86_64''" and pf' = "PyStr ''ppc64le''"
         and self = example_self and w = world0
         and r = "Inr ()" and self' = "fst (snd (the ?X))" and w' = "snd (snd (the ?X))"
         and r' = "Inr ()" and self'' = "fst (snd (the ?Y))" and w'' = "snd (snd (the ?Y))",
       folded example_self_def]
  have range: "clock_in_range (PyFloat 151000000025 (- 2))"
    by (simp add: clock_in_range_def float_value_def)
  have repr: "float_repr (PyFloat 151000000025 (- 2)) = ''1510000000.25''"
    by code_simp
  have letters: "map (\<lambda>i. random_choice ascii_letters (7 * i + 30)) [0..<8] = ''ELSZgnuB''"
    by code_simp
  have dir: "koji_upload_dir example_self = ''koji-upload/1510000000.25.ELSZgnuB''"
    using at [THEN conjunct1] repr letters by simp
  have matches: "matches_upload_dir_pattern (koji_upload_dir example_self)"
    using at [THEN conjunct2, THEN conjunct2, THEN conjunct1] range by blast
  have no_override: "workflow_override_kwargs example_self ''koji_upload_dir'' = None"
    by (simp add: example_self_def OrchestrateBuildPlugin_init_def)
  have x: "map_option fst ?X = Some (Inr ())"
    using example_run_ok by (cases ?X) auto
  from run_result [OF this]
  have run_x: "?X = Some (Inr (), fst (snd (the ?X)), snd (snd (the ?X)))" .
  have "map_option fst ?Y = Some (Inr ())"
    using example_two_runs by (cases ?Y) auto
  from run_result [OF this]
  have "?Y = Some (Inr (), fst (snd (the ?Y)), snd (snd (the ?Y)))" .
  then have run_y: "select_and_start_cluster 2 example_env_ok two_clusters (PyStr ''ppc64le'')
                      (fst (snd (the ?X)), snd (snd (the ?X)))
                    = Some (Inr (), fst (snd (the ?Y)), snd (snd (the ?Y)))"
    by simp
  have "\<forall>c \<in> set (new_calls world0 (snd (snd (the ?Y)))).
          fst (snd c) ''koji_upload_dir'' = Some (PyStr (koji_upload_dir example_self))"
    using at [THEN conjunct2, THEN conjunct2, THEN conjunct2] run_x run_y no_override by simp
  then have all: "list_all (\<lambda>c. fst (snd c) ''koji_upload_dir''
                               = Some (PyStr (koji_upload_dir example_self)))
                    (new_calls world0 (snd (snd (the ?Y))))"
    by (simp add: list_all_iff)
  show ?thesis
    by (intro conjI) (rule range repr letters dir matches no_override x example_two_runs all)+
qed

section \<open>The first round of a run\<close>

lemma probe_candidates_sleeps:
  "probe_candidates e self pf cs (contexts, w, possible) = (r, contexts', w')
   \<Longrightarrow> sleeps w' = sleeps w"
proof (induction cs arbitrary: contexts w possible)
  case Nil
  then show ?case by simp
next
  case (Cons c cs)
  from Cons.prems show ?case
    by (auto split: option.splits if_splits sum.splits simp: step_def dest!: Cons.IH)
qed

lemma do_worker_build_sleeps:
  "do_worker_build e ci (self, w) = (r, self', w') \<Longrightarrow> sleeps w' = sleeps w"
  by (auto simp: do_worker_build_def monitor_failed_def cancel_build_def Let_def step_def
      split: sum.splits option.splits if_splits prod.splits)

lemma start_on_clusters_sleeps:
  "start_on_clusters e infos (self, contexts, w) = (r, self', contexts', w')
   \<Longrightarrow> sleeps w' = sleeps w"
proof (induction infos arbitrary: self contexts w)
  case Nil
  then show ?case by simp
next
  case (Cons ci rest)
  show ?case
  proof (cases "map_of contexts (name (cluster ci))")
    case None
    then show ?thesis using Cons.prems by simp
  next
    case (Some ctx)
    obtain r1 s1 w1 where d: "do_worker_build e ci (self, w) = (r1, s1, w1)"
      by (metis prod_cases3)
    have w1: "sleeps w1 = sleeps w" using do_worker_build_sleeps [OF d] .
    show ?thesis
    proof (cases "r1 = Inl OsbsException")
      case True
      then have "start_on_clusters e rest
              (s1,
               update_ctx (name (cluster ci))
                 (try_again_later (now_at e (tick w1)) (failure_retry_delay self)) contexts,
               step w1) = (r, self', contexts', w')"
        using Cons.prems Some d by simp
      from Cons.IH [OF this] show ?thesis using w1 by (simp add: step_def)
    next
      case False
      then have "w' = w1" using Cons.prems Some d by (auto split: sum.splits if_splits)
      then show ?thesis using w1 by simp
    qed
  qed
qed

lemma get_clusters_loop_sleeps:
  "get_clusters_loop fuel e self pf candidates (contexts, w) = Some (r, contexts', w')
   \<Longrightarrow> \<exists>extra. sleeps w' = sleeps w @ extra
         \<and> (candidates \<noteq> [] \<longrightarrow>
              (\<forall>s. wait_for_any_cluster (now_at e (tick w)) contexts = Inr s
                    \<longrightarrow> (\<exists>rest. extra = s # rest)))"
proof (induction fuel arbitrary: candidates contexts w)
  case 0
  then show ?case by simp
next
  case (Suc fuel)
  from Suc.prems show ?case
  proof (cases rule: get_clusters_loop_Suc_cases)
    case empty
    then show ?thesis by simp
  next
    case (raised ex)
    then show ?thesis by simp
  next
    case (probe_error secs ex c1 w1)
    then show ?thesis using probe_candidates_sleeps [OF probe_error(3)] by (simp add: step_def)
  next
    case (finished secs possible c1 w1)
    then show ?thesis using probe_candidates_sleeps [OF finished(3)] by (simp add: step_def)
  next
    case (again secs c1 w1)
    from Suc.IH [OF again(5)] obtain extra where "sleeps w' = sleeps w1 @ extra" by blast
    then show ?thesis using again(2) probe_candidates_sleeps [OF again(3)]
      by (simp add: step_def)
  qed
qed

lemma get_clusters_sleeps:
  "get_clusters fuel e self pf contexts all_clusters w = Some (r, contexts', w')
   \<Longrightarrow> \<exists>extra. sleeps w' = sleeps w @ extra
         \<and> (all_clusters \<noteq> [] \<longrightarrow>
              (\<forall>s. wait_for_any_cluster (now_at e (tick w)) contexts = Inr s
                    \<longrightarrow> (\<exists>rest. extra = s # rest)))"
proof -
  assume "get_clusters fuel e self pf contexts all_clusters w = Some (r, contexts', w')"
  then obtain r0 where
    "get_clusters_loop fuel e self pf all_clusters (contexts, w) = Some (r0, contexts', w')"
    by (auto simp: get_clusters_def split: option.splits sum.splits prod.splits)
  from get_clusters_loop_sleeps [OF this] show ?thesis .
qed

lemma select_loop_sleeps:
  "select_loop fuel e pf clusters (self, contexts, w) = Some (r, self', w')
   \<Longrightarrow> \<exists>extra. sleeps w' = sleeps w @ extra
         \<and> (clusters \<noteq> [] \<longrightarrow>
              (\<forall>s. wait_for_any_cluster (now_at e (tick w)) contexts = Inr s
                    \<longrightarrow> (\<exists>rest. extra = s # rest)))"
proof (induction fuel arbitrary: self contexts w)
  case 0
  then show ?case by simp
next
  case (Suc fuel)
  show ?case
  proof (cases "get_clusters fuel e self pf contexts clusters w")
    case None
    then show ?thesis using Suc.prems by simp
  next
    case (Some g)
    obtain gr c1 w1 where g: "g = (gr, c1, w1)" by (metis prod_cases3)
    from get_clusters_sleeps [OF Some [unfolded g]] obtain extra where
      x: "sleeps w1 = sleeps w @ extra"
         "clusters \<noteq> [] \<longrightarrow>
              (\<forall>s. wait_for_any_cluster (now_at e (tick w)) contexts = Inr s
                    \<longrightarrow> (\<exists>rest. extra = s # rest))"
      by blast
    show ?thesis
    proof (cases gr)
      case (Inl ex)
      then have "w' = w1" using Suc.prems Some g by (auto split: if_splits)
      then show ?thesis using x by blast
    next
      case (Inr possible)
      obtain sr s2 c2 w2 where st: "start_on_clusters e possible (self, c1, w1) = (sr, s2, c2, w2)"
        by (metis prod_cases4)
      have w2: "sleeps w2 = sleeps w1" using start_on_clusters_sleeps [OF st] .
      show ?thesis
      proof (cases "sr = Inr False")
        case True
        then have "select_loop fuel e pf clusters (s2, c2, w2) = Some (r, self', w')"
          using Suc.prems Some g Inr st by simp
        from Suc.IH [OF this] obtain extra2 where "sleeps w' = sleeps w2 @ extra2" by blast
        then have "sleeps w' = sleeps w @ (extra @ extra2)" using w2 x(1) by simp
        moreover have "clusters \<noteq> [] \<longrightarrow>
              (\<forall>s. wait_for_any_cluster (now_at e (tick w)) contexts = Inr s
                    \<longrightarrow> (\<exists>rest. extra @ extra2 = s # rest))"
          using x(2) by auto
        ultimately show ?thesis by blast
      next
        case False
        then have "w' = w2" using Suc.prems Some g Inr st
          by (cases sr) (auto split: bool.splits)
        then show ?thesis using w2 x by auto
      qed
    qed
  qed
qed

lemma select_and_start_cluster_first_sleep:
  assumes "select_and_start_cluster fuel e cfg pf (self, w) = Some (r, self', w')"
    and "cfg pf \<noteq> []" "0 < self_max_cluster_fails self" "utcfromtimestamp0 \<le> now_at e (tick w)"
  shows "\<exists>rest. sleeps w' = sleeps w @ 0 # rest"
proof -
  let ?ctxs = "fresh_retry_contexts (self_max_cluster_fails self) (cfg pf)"
  have run: "select_loop fuel e pf (cfg pf) (self, ?ctxs, w) = Some (r, self', w')"
    using assms(1,2) by (simp add: select_and_start_cluster_def Let_def)
  have nf: "\<not> failed (ClusterRetryContext_init (self_max_cluster_fails self))"
    using assms(3) by (rule fresh_not_failed)
  have ra: "retry_at (ClusterRetryContext_init (self_max_cluster_fails self)) \<le> now_at e (tick w)"
    using assms(4) by (simp add: ClusterRetryContext_init_def)
  have "ClusterRetryContext_init (self_max_cluster_fails self) \<in> snd ` set ?ctxs"
    using assms(2) by (cases "cfg pf") (auto simp: fresh_retry_contexts_def image_iff)
  from wait_zero [OF this nf ra]
  have "wait_for_any_cluster (now_at e (tick w)) ?ctxs = Inr 0" .
  then show ?thesis using select_loop_sleeps [OF run] assms(2) by auto
qed


lemma example_run_sleeps:
  "map_option (\<lambda>(r, s, w). (r, sleeps w))
     (select_and_start_cluster 2 example_env_ok two_clusters (PyStr ''x86_64'')
        (example_self, world0))
   = Some (Inr (), [0])"
  by code_simp

text \<open>
  C10: a context built with a positive \<open>max_cluster_fails\<close> has no failure and
  the epoch as \<open>retry_at\<close>; with the clock past the epoch it is neither failed
  nor in retry-wait, and \<open>wait_for_any_cluster\<close> over contexts that include it,
  such as those a run starts with, sleeps zero seconds. So the first sleep of
  a run of \<open>select_and_start_cluster\<close> is one of zero seconds.
\<close>

theorem fresh_context_not_delayed:
  "(0 < m \<and> utcfromtimestamp0 \<le> now \<longrightarrow>
       fails (ClusterRetryContext_init m) = 0
     \<and> retry_at (ClusterRetryContext_init m) = utcfromtimestamp0
     \<and> \<not> failed (ClusterRetryContext_init m)
     \<and> \<not> in_retry_wait now (ClusterRetryContext_init m)
     \<and> (ClusterRetryContext_init m \<in> snd ` set contexts
          \<longrightarrow> wait_for_any_cluster now contexts = Inr 0)
     \<and> (clusters \<noteq> []
          \<longrightarrow> wait_for_any_cluster now (fresh_retry_contexts m clusters) = Inr 0))
   \<and> (select_and_start_cluster fuel e cfg pf (self, w) = Some (r, self', w')
        \<and> cfg pf \<noteq> [] \<and> 0 < self_max_cluster_fails self
        \<and> utcfromtimestamp0 \<le> now_at e (tick w)
      \<longrightarrow> (\<exists>rest. sleeps w' = sleeps w @ 0 # rest))"
proof -
  have first: "0 < m \<and> utcfromtimestamp0 \<le> now \<longrightarrow>
       fails (ClusterRetryContext_init m) = 0
     \<and> retry_at (ClusterRetryContext_init m) = utcfromtimestamp0
     \<and> \<not> failed (ClusterRetryContext_init m)
     \<and> \<not> in_retry_wait now (ClusterRetryContext_init m)
     \<and> (ClusterRetryContext_init m \<in> snd ` set contexts
          \<longrightarrow> wait_for_any_cluster now contexts = Inr 0)
     \<and> (clusters \<noteq> []
          \<longrightarrow> wait_for_any_cluster now (fresh_retry_contexts m clusters) = Inr 0)"
  proof
    assume "0 < m \<and> utcfromtimestamp0 \<le> now"
    then have m: "0 < m" and now: "utcfromtimestamp0 \<le> now" by simp_all
    let ?c = "ClusterRetryContext_init m"
    have nf: "\<not> failed ?c" using m by (rule fresh_not_failed)
    have ra: "retry_at ?c \<le> now" using now by (simp add: ClusterRetryContext_init_def)
    have w1: "?c \<in> snd ` set contexts \<longrightarrow> wait_for_any_cluster now contexts = Inr 0"
      using wait_zero [OF _ nf ra] by blast
    have w2: "clusters \<noteq> []
              \<longrightarrow> wait_for_any_cluster now (fresh_retry_contexts m clusters) = Inr 0"
    proof
      assume "clusters \<noteq> []"
      then have "?c \<in> snd ` set (fresh_retry_contexts m clusters)"
        by (cases clusters) (auto simp: fresh_retry_contexts_def image_iff)
      then show "wait_for_any_cluster now (fresh_retry_contexts m clusters) = Inr 0"
        using wait_zero [OF _ nf ra] by blast
    qed
    show "fails ?c = 0 \<and> retry_at ?c = utcfromtimestamp0 \<and> \<not> failed ?c
       \<and> \<not> in_retry_wait now ?c
       \<and> (?c \<in> snd ` set contexts \<longrightarrow> wait_for_any_cluster now contexts = Inr 0)
       \<and> (clusters \<noteq> []
            \<longrightarrow> wait_for_any_cluster now (fresh_retry_contexts m clusters) = Inr 0)"
      using nf ra w1 w2 by (simp add: ClusterRetryContext_init_def in_retry_wait_def)
  qed
  have second: "select_and_start_cluster fuel e cfg pf (self, w) = Some (r, self', w')
        \<and> cfg pf \<noteq> [] \<and> 0 < self_max_cluster_fails self
        \<and> utcfromtimestamp0 \<le> now_at e (tick w)
      \<longrightarrow> (\<exists>rest. sleeps w' = sleeps w @ 0 # rest)"
    using select_and_start_cluster_first_sleep by blast
  show ?thesis by (intro conjI) (rule first second)+
qed

theorem fresh_context_not_delayed_witness:
  "(0 :: int) < 20 \<and> utcfromtimestamp0 \<le> 1500000000000000
   \<and> ClusterRetryContext_init 20
       \<in> snd ` set [(''a'', \<lparr>fails = 3, retry_at = 1500000015000000, max_cluster_fails = 20\<rparr>),
                    (''b'', ClusterRetryContext_init 20)]
   \<and> [cluster_a, cluster_b] \<noteq> []
   \<and> \<not> failed (ClusterRetryContext_init 20)
   \<and> \<not> in_retry_wait 1500000000000000 (ClusterRetryContext_init 20)
   \<and> wait_for_any_cluster 1500000000000000
        [(''a'', \<lparr>fails = 3, retry_at = 1500000015000000, max_cluster_fails = 20\<rparr>),
         (''b'', ClusterRetryContext_init 20)] = Inr 0
   \<and> wait_for_any_cluster 1500000000000000
        (fresh_retry_contexts 20 [cluster_a, cluster_b]) = Inr 0
   \<and> two_clusters (PyStr ''x86_64'') \<noteq> [] \<and> 0 < self_max_cluster_fails example_self
   \<and> utcfromtimestamp0 \<le> now_at example_env_ok (tick world0)
   \<and> map_option (\<lambda>(r, s, w). (r, sleeps w))
        (select_and_start_cluster 2 example_env_ok two_clusters (PyStr ''x86_64'')
           (example_self, world0))
      = Some (Inr (), [0])"
proof -
  let ?X = "select_and_start_cluster 2 example_env_ok two_clusters (PyStr ''x86_64'')
              (example_self, world0)"
  have "map_option fst ?X = Some (Inr ())"
    using example_run_sleeps by (cases ?X) auto
  from run_result [OF this]
  have run: "?X = Some (Inr (), fst (snd (the ?X)), snd (snd (the ?X)))" .
  have h1: "two_clusters (PyStr ''x86_64'') \<noteq> []" by (simp add: two_clusters_def)
  have h2: "0 < self_max_cluster_fails example_self"
    by (simp add: example_self_def OrchestrateBuildPlugin_init_def)
  have h3: "utcfromtimestamp0 \<le> now_at example_env_ok (tick world0)"
    by (simp add: utcfromtimestamp0_def example_env_ok_def example_env_def world0_def)
  show ?thesis
    using fresh_context_not_delayed
            [where m = 20 and now = 1500000000000000
               and contexts = "[(''a'', \<lparr>fails = 3, retry_at = 1500000015000000,
                                         max_cluster_fails = 20\<rparr>),
                                (''b'', ClusterRetryContext_init 20)]"
               and clusters = "[cluster_a, cluster_b]"
               and fuel = 2 and e = example_env_ok and cfg = two_clusters
               and pf = "PyStr ''x86_64''" and self = example_self and w = world0
               and r = "Inr ()"
               and self' = "fst (snd (the ?X))" and w' = "snd (snd (the ?X))"]
          run h1 h2 h3 example_run_sleeps
    by (simp add: utcfromtimestamp0_def)
qed

end
